(* ===== verification/Prelude.thy ===== *)
theory Prelude
  imports Main "HOL-Library.Sublist"
begin

text \<open>
  Shared vocabulary of the development: the pointer values a C program can hold in a
  field (\<open>NULL\<close>, an indeterminate value left by \<open>malloc\<close>, or a valid pointer), the
  character constants the shell tests for, C strings as \<open>char list\<close> cut at the first
  NUL, and the list lemmas on \<open>takeWhile\<close>, \<open>dropWhile\<close> and \<open>filter\<close> that the
  component theories use. The collections \<open>shell_defs\<close> (unfolding of small
  definitions) and \<open>shell_len\<close> (length facts that carry termination proofs) are
  filled by the component theories.
\<close>

section \<open>Collections\<close>

named_theorems shell_defs "definitions of the small helpers, unfolded by the component proofs"
named_theorems shell_len "length bounds used by termination proofs"

section \<open>Pointers and C strings\<close>

datatype 'a ptr = Null | Wild | Ptr 'a

type_synonym cstring = string

abbreviation tab :: char where "tab \<equiv> CHR 0x09"
abbreviation newline :: char where "newline \<equiv> CHR 0x0A"
abbreviation nul :: char where "nul \<equiv> CHR 0x00"
abbreviation dquote :: char where "dquote \<equiv> CHR 0x22"
abbreviation squote :: char where "squote \<equiv> CHR 0x27"

definition is_null :: "'a ptr \<Rightarrow> bool" where
  "is_null p \<longleftrightarrow> p = Null"

definition c_str :: "char list \<Rightarrow> cstring" where
  "c_str bs = takeWhile (\<lambda>c. c \<noteq> nul) bs"

definition strlen :: "cstring \<Rightarrow> nat" where
  "strlen s = length s"

definition is_ptr :: "'a ptr \<Rightarrow> bool" where
  "is_ptr p \<longleftrightarrow> (case p of Ptr x \<Rightarrow> True | _ \<Rightarrow> False)"

lemma is_ptr_simps [simp]:
  "\<not> is_ptr Null" "\<not> is_ptr Wild" "is_ptr (Ptr x)"
  by (simp_all add: is_ptr_def)

lemma is_null_simps [simp]:
  "is_null Null" "\<not> is_null Wild" "\<not> is_null (Ptr x)"
  by (simp_all add: is_null_def)

lemma c_str_no_nul [simp]: "nul \<notin> set (c_str bs)"
  by (auto simp: c_str_def dest: set_takeWhileD)

lemma c_str_id [simp]: "nul \<notin> set s \<Longrightarrow> c_str s = s"
  by (auto simp: c_str_def takeWhile_eq_all_conv)

lemma c_str_idem [simp]: "c_str (c_str bs) = c_str bs"
  by simp

lemma c_str_append_nul [simp]: "nul \<notin> set s \<Longrightarrow> c_str (s @ nul # rest) = s"
  by (induction s) (auto simp: c_str_def)

lemma length_c_str [shell_len]: "length (c_str bs) \<le> length bs"
  by (simp add: c_str_def length_takeWhile_le)

lemma length_c_str_less [shell_len]: "nul \<in> set bs \<Longrightarrow> length (c_str bs) < length bs"
  by (induction bs) (auto simp: c_str_def)

section \<open>List lemmas shared by the components\<close>

lemma length_dropWhile_less [shell_len]:
  "xs \<noteq> [] \<Longrightarrow> P (hd xs) \<Longrightarrow> length (dropWhile P xs) < length xs"
  by (cases xs) (auto simp: less_Suc_eq_le length_dropWhile_le)

lemma length_drop1_dropWhile [shell_len]:
  "length (drop (Suc 0) (dropWhile P xs)) \<le> length xs"
  using length_dropWhile_le [of P xs] by simp

lemma takeWhile_nil_iff: "takeWhile P xs = [] \<longleftrightarrow> (xs = [] \<or> \<not> P (hd xs))"
  by (cases xs) auto

lemma hd_dropWhile_not: "dropWhile P xs \<noteq> [] \<Longrightarrow> \<not> P (hd (dropWhile P xs))"
  by (rule hd_dropWhile)

lemma dropWhile_idem [simp]: "dropWhile P (dropWhile P xs) = dropWhile P xs"
  by (induction xs) auto

lemma takeWhile_all: "\<forall>x \<in> set xs. P x \<Longrightarrow> takeWhile P xs = xs"
  by (simp add: takeWhile_eq_all_conv)

lemma dropWhile_none: "xs \<noteq> [] \<Longrightarrow> \<not> P (hd xs) \<Longrightarrow> dropWhile P xs = xs"
  by (cases xs) auto

lemma rev_dropWhile_rev_id:
  "xs \<noteq> [] \<Longrightarrow> \<not> P (last xs) \<Longrightarrow> rev (dropWhile P (rev xs)) = xs"
  by (simp add: dropWhile_none hd_rev)

lemma last_rev_dropWhile_rev:
  "rev (dropWhile P (rev xs)) \<noteq> [] \<Longrightarrow> \<not> P (last (rev (dropWhile P (rev xs))))"
  using hd_dropWhile [of P "rev xs"] by (simp add: last_rev)

lemma length_filter_less_Suc [shell_len]: "length (filter P xs) < Suc (length xs)"
  by (simp add: less_Suc_eq_le)

section \<open>Reading in pieces\<close>

text \<open>
  \<open>fscanf\<close> with a field width and \<open>fgets\<close> with a buffer size read a long word or
  line in pieces: \<open>chunks n xs\<close> cuts \<open>xs\<close> into pieces of \<open>n\<close> elements, the last one
  shorter.
\<close>

function chunks :: "nat \<Rightarrow> 'a list \<Rightarrow> 'a list list" where
  "chunks n xs = (if n = 0 \<or> length xs \<le> n then [xs] else take n xs # chunks n (drop n xs))"
  by pat_completeness auto

termination
  by (relation "measure (\<lambda>(n, xs). length xs)") auto

declare chunks.simps [simp del]

lemma chunks_short: "length xs \<le> n \<Longrightarrow> chunks n xs = [xs]"
  by (simp add: chunks.simps)

lemma concat_chunks [simp]: "concat (chunks n xs) = xs"
  by (induction n xs rule: chunks.induct) (subst chunks.simps, simp)

lemma concat_chunks_short:
  "\<forall>t \<in> set ts. length t \<le> n \<Longrightarrow> concat (map (chunks n) ts) = ts"
  by (induction ts) (simp_all add: chunks_short)

lemma distinct_filter_append_single:
  "distinct xs \<Longrightarrow> distinct (filter (\<lambda>y. y \<noteq> x) xs @ [x])"
  by simp

end
