(* ===== verification/CString.thy ===== *)
theory CString
  imports Prelude
begin

text \<open>
  The C library string routines the shell calls, as functions on \<open>cstring\<close>:
  \<open>strchr\<close> used as a membership test, \<open>strcmp\<close> used as an equality test,
  \<open>strstr\<close> used as a substring test, and \<open>strtok\<close> with its saved position made an
  explicit value. \<open>strtok\<close> returns the token, whether a delimiter followed it (the
  byte that the C routine overwrites with NUL) and the text after that delimiter, which
  is the saved position for the next call; \<open>None\<close> is the NULL result. \<open>tokens\<close>
  iterates \<open>strtok\<close> to exhaustion and is the reference tokeniser of the parser.
\<close>

section \<open>Tests built from strchr, strcmp and strstr\<close>

definition strchr_found :: "cstring \<Rightarrow> char \<Rightarrow> bool" where
  "strchr_found s c \<longleftrightarrow> c \<in> set s \<or> c = nul"

definition strcmp_eq :: "cstring \<Rightarrow> cstring \<Rightarrow> bool" where
  "strcmp_eq a b \<longleftrightarrow> a = b"

fun strstr_found :: "cstring \<Rightarrow> cstring \<Rightarrow> bool" where
  "strstr_found [] needle = (needle = [])"
| "strstr_found (c # cs) needle = (prefix needle (c # cs) \<or> strstr_found cs needle)"

lemma strchr_found_non_nul [simp]: "c \<noteq> nul \<Longrightarrow> strchr_found s c \<longleftrightarrow> c \<in> set s"
  by (simp add: strchr_found_def)

lemma strcmp_eq_iff [simp]: "strcmp_eq a b \<longleftrightarrow> a = b"
  by (simp add: strcmp_eq_def)

lemma strstr_found_iff_sublist: "strstr_found hay needle \<longleftrightarrow> sublist needle hay"
  by (induction hay) (simp_all add: sublist_Cons_right)

lemma strstr_found_nil [simp]: "strstr_found hay []"
  by (simp add: strstr_found_iff_sublist)

lemma strstr_found_append:
  "strstr_found (pre @ needle @ post) needle"
  by (simp add: strstr_found_iff_sublist)

section \<open>strtok\<close>

definition strtok :: "cstring \<Rightarrow> cstring \<Rightarrow> (cstring \<times> bool \<times> cstring) option" where
  "strtok delim s =
     (let s1 = dropWhile (\<lambda>c. c \<in> set delim) s in
      if s1 = [] then None
      else let s2 = dropWhile (\<lambda>c. c \<notin> set delim) s1
           in Some (takeWhile (\<lambda>c. c \<notin> set delim) s1, s2 \<noteq> [], drop 1 s2))"

lemma strtok_Nil [simp]: "strtok delim [] = None"
  by (simp add: strtok_def)

lemma strtok_None_iff: "strtok delim s = None \<longleftrightarrow> set s \<subseteq> set delim"
  by (auto simp: strtok_def Let_def)

lemma strtok_skip [simp]: "c \<in> set delim \<Longrightarrow> strtok delim (c # s) = strtok delim s"
  by (simp add: strtok_def)

lemma strtok_SomeE:
  assumes "strtok delim s = Some (tok, more, rest)"
  obtains s1 where "s1 = dropWhile (\<lambda>c. c \<in> set delim) s" and "s1 \<noteq> []"
    and "hd s1 \<notin> set delim"
    and "tok = takeWhile (\<lambda>c. c \<notin> set delim) s1"
    and "more \<longleftrightarrow> dropWhile (\<lambda>c. c \<notin> set delim) s1 \<noteq> []"
    and "rest = drop 1 (dropWhile (\<lambda>c. c \<notin> set delim) s1)"
proof -
  define s1 where "s1 = dropWhile (\<lambda>c. c \<in> set delim) s"
  have unfold: "strtok delim s =
      (if s1 = [] then None else Some (takeWhile (\<lambda>c. c \<notin> set delim) s1,
        dropWhile (\<lambda>c. c \<notin> set delim) s1 \<noteq> [], drop 1 (dropWhile (\<lambda>c. c \<notin> set delim) s1)))"
    by (simp only: strtok_def Let_def s1_def)
  with assms have ne: "s1 \<noteq> []"
    by (cases "s1 = []") simp_all
  with assms unfold have *: "tok = takeWhile (\<lambda>c. c \<notin> set delim) s1 \<and>
      (more \<longleftrightarrow> dropWhile (\<lambda>c. c \<notin> set delim) s1 \<noteq> []) \<and>
      rest = drop 1 (dropWhile (\<lambda>c. c \<notin> set delim) s1)"
    by (simp only: if_False option.inject prod.inject)
  from ne have hd: "hd s1 \<notin> set delim"
    unfolding s1_def by (rule hd_dropWhile)
  show ?thesis
    by (rule that [OF s1_def ne hd * [THEN conjunct1] * [THEN conjunct2, THEN conjunct1]
          * [THEN conjunct2, THEN conjunct2]])
qed

lemma strtok_Some_length [shell_len]:
  assumes "strtok delim s = Some (tok, more, rest)"
  shows "length rest < length s"
proof -
  from assms obtain s1 where s1: "s1 = dropWhile (\<lambda>c. c \<in> set delim) s" "s1 \<noteq> []"
    "hd s1 \<notin> set delim" and rest: "rest = drop 1 (dropWhile (\<lambda>c. c \<notin> set delim) s1)"
    by (rule strtok_SomeE)
  from s1 have "length (dropWhile (\<lambda>c. c \<notin> set delim) s1) < length s1"
    by (intro length_dropWhile_less) auto
  also have "\<dots> \<le> length s"
    unfolding s1(1) by (rule length_dropWhile_le)
  finally show ?thesis
    using rest by simp
qed

lemma strtok_token_nonempty:
  assumes "strtok delim s = Some (tok, more, rest)"
  shows "tok \<noteq> []"
proof -
  from assms obtain s1 where "s1 \<noteq> []" and "hd s1 \<notin> set delim"
    and "tok = takeWhile (\<lambda>c. c \<notin> set delim) s1"
    by (rule strtok_SomeE)
  then show ?thesis by (cases s1) simp_all
qed

lemma strtok_token_no_delim:
  assumes "strtok delim s = Some (tok, more, rest)"
  shows "set tok \<inter> set delim = {}"
proof -
  from assms obtain s1 where "tok = takeWhile (\<lambda>c. c \<notin> set delim) s1"
    by (rule strtok_SomeE)
  then have "\<forall>c \<in> set tok. c \<notin> set delim"
    by (metis set_takeWhileD)
  then show ?thesis by blast
qed

lemma strtok_undelimited:
  assumes "strtok delim s = Some (tok, False, rest)"
  shows "rest = []"
proof -
  from assms obtain s1 where "\<not> dropWhile (\<lambda>c. c \<notin> set delim) s1 \<noteq> []"
    and "rest = drop 1 (dropWhile (\<lambda>c. c \<notin> set delim) s1)"
    by (rule strtok_SomeE) blast
  then show ?thesis by (simp only: not_not drop.simps)
qed

lemma strtok_rest_suffix:
  assumes "strtok delim s = Some (tok, more, rest)"
  shows "suffix rest s"
proof -
  from assms obtain s1 where s1: "s1 = dropWhile (\<lambda>c. c \<in> set delim) s"
    and rest: "rest = drop 1 (dropWhile (\<lambda>c. c \<notin> set delim) s1)"
    by (rule strtok_SomeE)
  have "suffix rest (dropWhile (\<lambda>c. c \<notin> set delim) s1)"
    unfolding rest by (rule suffix_drop)
  also have "suffix \<dots> s1" by (rule suffix_dropWhile)
  also have "suffix s1 s" unfolding s1 by (rule suffix_dropWhile)
  finally show ?thesis .
qed

lemma strtok_token_length:
  assumes "strtok delim s = Some (tok, more, rest)"
  shows "length tok \<le> length s"
proof -
  from assms obtain s1 where s1: "s1 = dropWhile (\<lambda>c. c \<in> set delim) s"
    and tok: "tok = takeWhile (\<lambda>c. c \<notin> set delim) s1"
    by (rule strtok_SomeE)
  have "length tok \<le> length s1" unfolding tok by (rule length_takeWhile_le)
  also have "\<dots> \<le> length s" unfolding s1 by (rule length_dropWhile_le)
  finally show ?thesis .
qed

lemma strtok_token_set:
  assumes "strtok delim s = Some (tok, more, rest)"
  shows "set tok \<subseteq> set s"
proof -
  from assms obtain s1 where s1: "s1 = dropWhile (\<lambda>c. c \<in> set delim) s"
    and tok: "tok = takeWhile (\<lambda>c. c \<notin> set delim) s1"
    by (rule strtok_SomeE)
  have "set tok \<subseteq> set s1" unfolding tok by (auto dest: set_takeWhileD)
  also have "\<dots> \<subseteq> set s" unfolding s1 by (auto dest: set_dropWhileD)
  finally show ?thesis .
qed

lemma strtok_rest_set:
  "strtok delim s = Some (tok, more, rest) \<Longrightarrow> set rest \<subseteq> set s"
  by (drule strtok_rest_suffix) (rule set_mono_suffix)

lemma strtok_word:
  assumes "w \<noteq> []" and "set w \<inter> set delim = {}" and "d \<in> set delim"
  shows "strtok delim (w @ d # s) = Some (w, True, s)"
proof -
  from assms have hd: "hd w \<notin> set delim" by (cases w) auto
  with assms have "dropWhile (\<lambda>c. c \<in> set delim) (w @ d # s) = w @ d # s"
    by (cases w) auto
  moreover from assms have "takeWhile (\<lambda>c. c \<notin> set delim) (w @ d # s) = w"
    by (subst takeWhile_append2) auto
  moreover from assms have "dropWhile (\<lambda>c. c \<notin> set delim) (w @ d # s) = d # s"
    by (subst dropWhile_append2) auto
  ultimately show ?thesis
    using assms by (simp add: strtok_def)
qed

lemma strtok_last_word:
  assumes "w \<noteq> []" and "set w \<inter> set delim = {}"
  shows "strtok delim w = Some (w, False, [])"
proof -
  from assms have all: "\<forall>c \<in> set w. c \<notin> set delim" by auto
  with assms have a: "dropWhile (\<lambda>c. c \<in> set delim) w = w"
    by (cases w) auto
  from all have b: "dropWhile (\<lambda>c. c \<notin> set delim) w = []"
    and c: "takeWhile (\<lambda>c. c \<notin> set delim) w = w"
    by (simp_all add: takeWhile_all)
  show ?thesis
    unfolding strtok_def Let_def a b c using assms by simp
qed

lemma strtok_skip_pre:
  "set pre \<subseteq> set delim \<Longrightarrow> strtok delim (pre @ s) = strtok delim s"
  by (induction pre) simp_all

lemma strtok_pre_word:
  assumes "set pre \<subseteq> set delim" and "w \<noteq> []" and "set w \<inter> set delim = {}"
    and "d \<in> set delim"
  shows "strtok delim (pre @ w @ d # s) = Some (w, True, s)"
  using assms by (simp add: strtok_skip_pre strtok_word)

lemma strtok_pre_last_word:
  assumes "set pre \<subseteq> set delim" and "w \<noteq> []" and "set w \<inter> set delim = {}"
  shows "strtok delim (pre @ w) = Some (w, False, [])"
  using assms by (simp add: strtok_skip_pre strtok_last_word)

lemma strtok_decomp:
  assumes "strtok delim s = Some (tok, dl, rest)"
  obtains pre d where "set pre \<subseteq> set delim" and "dl" and "d \<in> set delim"
      and "s = pre @ tok @ d # rest"
    | pre where "set pre \<subseteq> set delim" and "\<not> dl" and "s = pre @ tok" and "rest = []"
proof -
  from assms obtain s1 where s1: "s1 = dropWhile (\<lambda>c. c \<in> set delim) s"
    and tok: "tok = takeWhile (\<lambda>c. c \<notin> set delim) s1"
    and dl: "dl \<longleftrightarrow> dropWhile (\<lambda>c. c \<notin> set delim) s1 \<noteq> []"
    and rest: "rest = drop 1 (dropWhile (\<lambda>c. c \<notin> set delim) s1)"
    by (rule strtok_SomeE)
  define pre where "pre = takeWhile (\<lambda>c. c \<in> set delim) s"
  define s2 where "s2 = dropWhile (\<lambda>c. c \<notin> set delim) s1"
  have pre: "set pre \<subseteq> set delim"
    unfolding pre_def by (auto dest: set_takeWhileD)
  have s: "s = pre @ tok @ s2"
    unfolding pre_def tok s2_def s1 by simp
  have rest': "rest = drop 1 s2"
    unfolding s2_def by (rule rest)
  show ?thesis
  proof (cases dl)
    case True
    with dl have ne: "s2 \<noteq> []" by (simp add: s2_def)
    then have d: "hd s2 \<in> set delim"
      using hd_dropWhile [of "\<lambda>c. c \<notin> set delim" s1] by (simp add: s2_def)
    from ne rest' have "s2 = hd s2 # rest"
      by (cases s2) simp_all
    with s have "s = pre @ tok @ hd s2 # rest" by simp
    with pre True d show ?thesis by (rule that(1))
  next
    case False
    with dl have "s2 = []" by (simp add: s2_def)
    with s rest' have "s = pre @ tok" and "rest = []" by simp_all
    with pre False show ?thesis by (rule that(2))
  qed
qed

section \<open>The token sequence of a string\<close>

function tokens :: "cstring \<Rightarrow> cstring \<Rightarrow> cstring list" where
  "tokens delim s =
     (case strtok delim s of None \<Rightarrow> [] | Some (tok, more, rest) \<Rightarrow> tok # tokens delim rest)"
  by pat_completeness auto
termination
  by (relation "measure (\<lambda>(delim, s). length s)") (auto simp: strtok_Some_length)

declare tokens.simps [simp del]

lemma tokens_Nil [simp]: "tokens delim [] = []"
  by (simp add: tokens.simps)

lemma tokens_skip [simp]: "c \<in> set delim \<Longrightarrow> tokens delim (c # s) = tokens delim s"
  by (simp add: tokens.simps [of delim "c # s"] tokens.simps [of delim s])

lemma tokens_None: "strtok delim s = None \<Longrightarrow> tokens delim s = []"
  by (simp add: tokens.simps)

lemma tokens_Some:
  "strtok delim s = Some (tok, more, rest) \<Longrightarrow> tokens delim s = tok # tokens delim rest"
  by (simp add: tokens.simps [of delim s])

lemma tokens_word:
  "w \<noteq> [] \<Longrightarrow> set w \<inter> set delim = {} \<Longrightarrow> d \<in> set delim \<Longrightarrow>
   tokens delim (w @ d # s) = w # tokens delim s"
  by (simp add: tokens_Some [OF strtok_word])

lemma tokens_last_word:
  "w \<noteq> [] \<Longrightarrow> set w \<inter> set delim = {} \<Longrightarrow> tokens delim w = [w]"
  by (simp add: tokens_Some [OF strtok_last_word])

lemma tokens_dropWhile [simp]:
  "tokens delim (dropWhile (\<lambda>c. c \<in> set delim) s) = tokens delim s"
  by (induction s) auto

lemma tokens_all_delims: "set s \<subseteq> set delim \<Longrightarrow> tokens delim s = []"
  by (simp add: tokens_None strtok_None_iff)

lemma tokens_Nil_iff: "tokens delim s = [] \<longleftrightarrow> set s \<subseteq> set delim"
  by (cases "strtok delim s") (auto simp: tokens_None tokens_Some strtok_None_iff [symmetric])

lemma tokens_snoc_delim:
  "d \<in> set delim \<Longrightarrow> tokens delim (s @ [d]) = tokens delim s"
proof (induction delim s rule: tokens.induct)
  case (1 delim s)
  show ?case
  proof (cases "strtok delim s")
    case None
    with "1.prems" show ?thesis
      by (simp add: tokens_all_delims strtok_None_iff)
  next
    case (Some r)
    obtain tok dl rest where r: "r = (tok, dl, rest)" by (cases r)
    from Some r have tok: "tok \<noteq> []" "set tok \<inter> set delim = {}"
      by (auto dest: strtok_token_nonempty strtok_token_no_delim)
    from Some [unfolded r] show ?thesis
    proof (cases rule: strtok_decomp [consumes 1])
      case (1 pre d')
      with tok have "strtok delim (s @ [d]) = Some (tok, True, rest @ [d])"
        using strtok_pre_word [of pre delim tok d' "rest @ [d]"] by simp
      with Some r "1.IH" [OF Some r [symmetric] refl "1.prems"] show ?thesis
        by (simp add: tokens_Some)
    next
      case (2 pre)
      with tok "1.prems" have "strtok delim (s @ [d]) = Some (tok, True, [])"
        using strtok_pre_word [of pre delim tok d "[]"] by simp
      with Some r 2 show ?thesis
        by (simp add: tokens_Some)
    qed
  qed
qed

lemma tokens_append_delims:
  "set ds \<subseteq> set delim \<Longrightarrow> tokens delim (s @ ds) = tokens delim s"
proof (induction ds rule: rev_induct)
  case (snoc d ds)
  then show ?case
    using tokens_snoc_delim [of d delim "s @ ds"] by simp
qed simp

lemma tokens_prepend_delims:
  "set ds \<subseteq> set delim \<Longrightarrow> tokens delim (ds @ s) = tokens delim s"
  by (induction ds) simp_all

lemma tokens_memD:
  assumes "t \<in> set (tokens delim s)"
  obtains s' more rest where "suffix s' s" and "strtok delim s' = Some (t, more, rest)"
  using assms
proof (induction delim s arbitrary: thesis rule: tokens.induct)
  case (1 delim s)
  show ?case
  proof (cases "strtok delim s")
    case None
    with "1.prems" show ?thesis by (simp add: tokens_None)
  next
    case (Some r)
    obtain tok more rest where r: "r = (tok, more, rest)" by (cases r)
    with Some "1.prems"(2) consider "t = tok" | "t \<in> set (tokens delim rest)"
      by (auto simp: tokens_Some)
    then show ?thesis
    proof cases
      case 1
      with Some r show ?thesis by (intro "1.prems"(1) [of s more rest]) simp_all
    next
      case 2
      from Some r have suf: "suffix rest s" by (auto dest: strtok_rest_suffix)
      show ?thesis
      proof (rule "1.IH" [OF Some r [symmetric] refl _ 2])
        fix s' more' rest'
        assume "suffix s' rest" and "strtok delim s' = Some (t, more', rest')"
        with suf show ?thesis
          by (intro "1.prems"(1) [of s' more' rest']) (auto intro: suffix_order.trans)
      qed
    qed
  qed
qed

lemma tokens_nonempty: "t \<in> set (tokens delim s) \<Longrightarrow> t \<noteq> []"
  by (erule tokens_memD) (rule strtok_token_nonempty)

lemma tokens_no_delim: "t \<in> set (tokens delim s) \<Longrightarrow> set t \<inter> set delim = {}"
  by (erule tokens_memD) (rule strtok_token_no_delim)

lemma tokens_subset: "t \<in> set (tokens delim s) \<Longrightarrow> set t \<subseteq> set s"
  by (erule tokens_memD) (blast dest: strtok_token_set set_mono_suffix)

lemma tokens_length_le: "t \<in> set (tokens delim s) \<Longrightarrow> length t \<le> length s"
  by (erule tokens_memD) (meson strtok_token_length suffix_length_le order_trans)

lemma last_last_tokens:
  assumes "s \<noteq> []" and "last s \<notin> set delim"
  shows "tokens delim s \<noteq> [] \<and> last (last (tokens delim s)) = last s"
  using assms
proof (induction delim s rule: tokens.induct)
  case (1 delim s)
  show ?case
  proof (cases "strtok delim s")
    case None
    then have "set s \<subseteq> set delim" by (simp add: strtok_None_iff)
    with "1.prems" have "last s \<in> set delim"
      using last_in_set [of s] by blast
    with "1.prems" show ?thesis by simp
  next
    case (Some r)
    obtain tok dl rest where r: "r = (tok, dl, rest)" by (cases r)
    from Some r have tok: "tok \<noteq> []" by (auto dest: strtok_token_nonempty)
    from Some r have toks: "tokens delim s = tok # tokens delim rest"
      by (simp add: tokens_Some)
    from Some [unfolded r] show ?thesis
    proof (cases rule: strtok_decomp [consumes 1])
      case (1 pre d)
      with "1.prems" have "rest \<noteq> []" and "last rest = last s" by auto
      with "1.prems" "1.IH" [OF Some r [symmetric] refl] toks show ?thesis by simp
    next
      case (2 pre)
      with tok toks show ?thesis by simp
    qed
  qed
qed

end
