(* ===== verification/Command.thy ===== *)
theory Command
  imports CString
begin

text \<open>
  The data model of the shell (\<open>src/src/shell-skeleton.c\<close>, lines 16-30 and 61-86):
  the dispatcher's return codes, \<open>struct command_t\<close> and \<open>free_command\<close>.
  HOL records cannot be recursive, so the struct is a record of its scalar and array
  fields (\<open>command_fields\<close>) inside a datatype that adds the \<open>next\<close> link. A pointer
  field holds \<open>Null\<close>, a valid \<open>Ptr\<close> or \<open>Wild\<close>, the indeterminate value of a
  field that was never written after \<open>malloc\<close>. The argument vector holds \<open>Some\<close>
  strings and \<open>None\<close> for the terminating NULL entry.
  The lemmas give the chain of stages a command denotes, the well-formedness
  invariant of a parsed stage, and the exact condition under which \<open>free_command\<close>
  only touches valid memory together with the number of blocks it releases.
\<close>

section \<open>Return codes and the command structure\<close>

datatype return_codes = SUCCESS | EXIT | UNKNOWN

fun return_code_value :: "return_codes \<Rightarrow> nat" where
  "return_code_value SUCCESS = 0"
| "return_code_value EXIT = 1"
| "return_code_value UNKNOWN = 2"

record command_fields =
  name :: cstring
  background :: bool
  auto_complete :: bool
  arg_count :: nat
  args :: "cstring option list"
  redirects :: "cstring ptr list"

datatype command_t = Command (fields: command_fields) (next_command: "command_t ptr")

definition zero_fields :: command_fields where
  "zero_fields = \<lparr>name = [], background = False, auto_complete = False, arg_count = 0,
     args = [], redirects = [Null, Null, Null]\<rparr>"

definition zero_command :: command_t where
  "zero_command = Command zero_fields Null"

definition map_fields :: "(command_fields \<Rightarrow> command_fields) \<Rightarrow> command_t \<Rightarrow> command_t" where
  "map_fields g c = Command (g (fields c)) (next_command c)"

definition set_next :: "command_t ptr \<Rightarrow> command_t \<Rightarrow> command_t" where
  "set_next p c = Command (fields c) p"

datatype arg_read = Past_array | Null_arg | Arg cstring

definition arg_at :: "command_fields \<Rightarrow> nat \<Rightarrow> arg_read" where
  "arg_at f i =
     (if i < length (args f) then (case args f ! i of None \<Rightarrow> Null_arg | Some a \<Rightarrow> Arg a)
      else Past_array)"

lemma fields_map_fields [simp]: "fields (map_fields g c) = g (fields c)"
  by (simp add: map_fields_def)

lemma next_map_fields [simp]: "next_command (map_fields g c) = next_command c"
  by (simp add: map_fields_def)

lemma fields_set_next [simp]: "fields (set_next p c) = fields c"
  by (simp add: set_next_def)

lemma next_set_next [simp]: "next_command (set_next p c) = p"
  by (simp add: set_next_def)

lemma map_fields_Command [simp]: "map_fields g (Command f n) = Command (g f) n"
  by (simp add: map_fields_def)

lemma set_next_Command [simp]: "set_next p (Command f n) = Command f p"
  by (simp add: set_next_def)

lemma map_fields_comp [simp]: "map_fields g (map_fields h c) = map_fields (g \<circ> h) c"
  by (simp add: map_fields_def)

lemma zero_command_simps [simp]:
  "fields zero_command = zero_fields" "next_command zero_command = Null"
  by (simp_all add: zero_command_def)

section \<open>The chain a command denotes\<close>

fun stages :: "command_t \<Rightarrow> command_fields list" where
  "stages (Command f (Ptr c)) = f # stages c"
| "stages (Command f _) = [f]"

fun chain_terminated :: "command_t \<Rightarrow> bool" where
  "chain_terminated (Command f Null) = True"
| "chain_terminated (Command f Wild) = False"
| "chain_terminated (Command f (Ptr c)) = chain_terminated c"

definition redirects_valid :: "command_fields \<Rightarrow> bool" where
  "redirects_valid f \<longleftrightarrow> length (redirects f) = 3 \<and> Wild \<notin> set (redirects f)"

definition wf_args :: "command_fields \<Rightarrow> bool" where
  "wf_args f \<longleftrightarrow>
     arg_count f = length (args f) \<and> 2 \<le> length (args f) \<and>
     hd (args f) = Some (name f) \<and> last (args f) = None \<and>
     None \<notin> set (butlast (args f))"

definition wf_stage :: "command_fields \<Rightarrow> bool" where
  "wf_stage f \<longleftrightarrow> wf_args f \<and> length (redirects f) = 3"

definition initialised :: "command_t \<Rightarrow> bool" where
  "initialised c \<longleftrightarrow> chain_terminated c \<and> (\<forall>f \<in> set (stages c). redirects_valid f)"

lemma stages_nonempty [simp]: "stages c \<noteq> []"
  by (induction c rule: stages.induct) simp_all

lemma hd_stages [simp]: "hd (stages c) = fields c"
  by (induction c rule: stages.induct) simp_all

lemma fields_in_stages [simp]: "fields c \<in> set (stages c)"
  by (induction c rule: stages.induct) simp_all

lemma head_in_stages [simp]: "f \<in> set (stages (Command f nxt))"
  using fields_in_stages [of "Command f nxt"] by simp

lemma stages_set_next_Null [simp]: "stages (set_next Null c) = [fields c]"
  by (cases c) simp

lemma stages_set_next_Ptr [simp]: "stages (set_next (Ptr d) c) = fields c # stages d"
  by (cases c) simp

lemma stages_map_fields:
  "stages (map_fields g c) = g (fields c) # tl (stages c)"
  by (induction c rule: stages.induct) simp_all

lemma chain_terminated_map_fields [simp]:
  "chain_terminated (map_fields g c) = chain_terminated c"
  by (induction c rule: chain_terminated.induct) simp_all

lemma chain_terminated_set_next [simp]:
  "chain_terminated (set_next p c) = (case p of Null \<Rightarrow> True | Wild \<Rightarrow> False | Ptr d \<Rightarrow> chain_terminated d)"
  by (cases c; cases p) simp_all

lemma stages_no_ptr: "\<not> is_ptr (next_command c) \<Longrightarrow> stages c = [fields c]"
  by (cases c; cases "next_command c") simp_all

lemma chain_terminated_no_ptr:
  "\<not> is_ptr (next_command c) \<Longrightarrow> chain_terminated c \<longleftrightarrow> next_command c = Null"
  by (cases c; cases "next_command c") simp_all

lemma stages_map_fields_names [simp]:
  "map name (stages (map_fields g c)) = name (g (fields c)) # tl (map name (stages c))"
  by (simp add: stages_map_fields map_tl)

lemma zero_command_initialised: "initialised zero_command"
  by (simp add: initialised_def zero_command_def zero_fields_def redirects_valid_def)

section \<open>free_command\<close>

datatype mem_error = WildFree | WildDeref

fun count_ptrs :: "'a ptr list \<Rightarrow> mem_error + nat" where
  "count_ptrs [] = Inr 0"
| "count_ptrs (Null # ps) = count_ptrs ps"
| "count_ptrs (Wild # ps) = Inl WildFree"
| "count_ptrs (Ptr x # ps) = map_sum id Suc (count_ptrs ps)"

definition free_args :: "command_fields \<Rightarrow> nat" where
  "free_args f =
     (if arg_count f \<noteq> 0
      then Suc (length (filter (\<lambda>a. a \<noteq> None) (take (arg_count f) (args f))))
      else 0)"

fun free_command :: "command_t \<Rightarrow> mem_error + nat" where
  "free_command (Command f nxt) =
     (case count_ptrs (redirects f) of
        Inl e \<Rightarrow> Inl e
      | Inr r \<Rightarrow>
          (case nxt of
             Null \<Rightarrow> Inr (free_args f + r + 2)
           | Wild \<Rightarrow> Inl WildDeref
           | Ptr c \<Rightarrow>
               (case free_command c of
                  Inl e \<Rightarrow> Inl e
                | Inr n \<Rightarrow> Inr (free_args f + r + n + 2))))"

definition blocks :: "command_fields \<Rightarrow> nat" where
  "blocks f = free_args f + length (filter (\<lambda>p. p \<noteq> Null) (redirects f)) + 2"

lemma count_ptrs_Inr_iff: "(\<exists>n. count_ptrs ps = Inr n) \<longleftrightarrow> Wild \<notin> set ps"
proof (induction ps rule: count_ptrs.induct)
  case (4 x ps)
  then show ?case by (cases "count_ptrs ps") auto
qed simp_all

lemma count_ptrs_value:
  "Wild \<notin> set ps \<Longrightarrow> count_ptrs ps = Inr (length (filter (\<lambda>p. p \<noteq> Null) ps))"
  by (induction ps rule: count_ptrs.induct) simp_all

lemma count_ptrs_Wild: "Wild \<in> set ps \<Longrightarrow> count_ptrs ps = Inl WildFree"
  by (induction ps rule: count_ptrs.induct) auto

text \<open>
  C2. On a chain whose links end in NULL and whose redirection slots hold no
  indeterminate pointer, \<open>free_command\<close> touches only valid memory and releases, for
  every stage, its argument strings, the argument array, its redirection targets, its
  name and the struct itself.
\<close>

theorem free_command_initialised:
  "initialised c \<Longrightarrow> free_command c = Inr (sum_list (map blocks (stages c)))"
proof (induction c rule: free_command.induct)
  case (1 f nxt)
  from "1.prems" have r: "count_ptrs (redirects f) = Inr (length (filter (\<lambda>p. p \<noteq> Null) (redirects f)))"
    using head_in_stages [of f nxt]
    by (auto simp: initialised_def redirects_valid_def count_ptrs_value simp del: head_in_stages)
  show ?case
  proof (cases nxt)
    case Null
    with r show ?thesis by (simp add: blocks_def)
  next
    case Wild
    with "1.prems" show ?thesis by (simp add: initialised_def)
  next
    case (Ptr c)
    with "1.prems" have "initialised c"
      by (simp add: initialised_def)
    with "1.IH" [OF r Ptr] have "free_command c = Inr (sum_list (map blocks (stages c)))" .
    with r Ptr show ?thesis by (simp add: blocks_def [of f])
  qed
qed

lemma free_command_Inr_initialised:
  "free_command c = Inr n \<Longrightarrow> chain_terminated c \<and> (\<forall>f \<in> set (stages c). Wild \<notin> set (redirects f))"
proof (induction c arbitrary: n rule: free_command.induct)
  case (1 f nxt)
  from "1.prems" obtain r where r: "count_ptrs (redirects f) = Inr r"
    by (cases "count_ptrs (redirects f)") auto
  then have nw: "Wild \<notin> set (redirects f)"
    using count_ptrs_Inr_iff by blast
  show ?case
  proof (cases nxt)
    case Null
    with nw show ?thesis by simp
  next
    case Wild
    with "1.prems" r show ?thesis by simp
  next
    case (Ptr c)
    with "1.prems" r obtain m where "free_command c = Inr m"
      by (cases "free_command c") auto
    with "1.IH" [OF r Ptr] nw Ptr show ?thesis by simp
  qed
qed

theorem free_command_initialised_witness:
  "initialised zero_command \<and> free_command zero_command = Inr 2"
  using free_command_initialised [OF zero_command_initialised] zero_command_initialised
  by (simp add: zero_command_def zero_fields_def blocks_def free_args_def)

end
