(* ===== verification/Parser.thy ===== *)
theory Parser
  imports Command
begin

text \<open>
  The pipeline parser \<open>parse_command\<close> (\<open>src/src/shell-skeleton.c\<close>, lines 100-253).
  The C function mutates the struct it is given, so the model takes the struct's
  prior contents and returns the new ones. \<open>parse_args\<close> is the \<open>while (1)\<close> loop of
  lines 147-234 with \<open>strtok\<close>'s saved position as its state; the argument array it
  grows is kept in the \<open>args\<close> field, so the local \<open>arg_index\<close> is \<open>length (args f)\<close>.
  The struct of a nested stage comes from \<open>malloc\<close> and is never cleared: its prior
  contents are the parameter \<open>junk\<close>, one value per nesting depth.
  Two executions leave defined behaviour and are results of their own:
  \<open>TempBufOverflow\<close> (a token of 1024 bytes or dl is copied into \<open>temp_buf\<close>) and
  \<open>ReadPastTerminator\<close> (a pipe token that ends the line: line 181 overwrites the
  terminating NUL and the nested call reads on).
\<close>

section \<open>Definitions\<close>

datatype parse_error = TempBufOverflow | ReadPastTerminator

definition splitters :: cstring where
  "splitters = [CHR '' '', tab]"

definition trim_left :: "cstring \<Rightarrow> cstring" where
  "trim_left buf = dropWhile (strchr_found splitters) buf"

definition trim_right :: "cstring \<Rightarrow> cstring" where
  "trim_right buf = rev (dropWhile (strchr_found splitters) (rev buf))"

definition mark_flags :: "cstring \<Rightarrow> command_fields \<Rightarrow> command_fields" where
  "mark_flags buf f =
     (let f1 = (if buf \<noteq> [] \<and> last buf = CHR ''?'' then f\<lparr>auto_complete := True\<rparr> else f)
      in if buf \<noteq> [] \<and> last buf = CHR ''&'' then f1\<lparr>background := True\<rparr> else f1)"

definition first_token :: "cstring \<Rightarrow> cstring \<times> cstring" where
  "first_token buf =
     (case strtok splitters buf of
        None \<Rightarrow> ([], [])
      | Some (pch, dl, st) \<Rightarrow> (pch, st))"

definition skip_blanks :: "cstring \<Rightarrow> cstring" where
  "skip_blanks s = dropWhile (\<lambda>c. c = CHR '' '' \<or> c = tab) s"

definition pipe_rest :: "cstring \<Rightarrow> cstring \<Rightarrow> cstring" where
  "pipe_rest pch st = skip_blanks (drop 1 (pch @ hd splitters # st))"

definition redirect_of :: "cstring \<Rightarrow> (nat \<times> cstring) option" where
  "redirect_of arg =
     (case arg of
        [] \<Rightarrow> None
      | c # rest \<Rightarrow>
          if c = CHR ''<'' then Some (0, rest)
          else if c = CHR ''>'' then
            (case rest of
               [] \<Rightarrow> Some (1, rest)
             | c' # rest' \<Rightarrow> if c' = CHR ''>'' then Some (2, rest') else Some (1, rest))
          else None)"

definition set_redirect :: "nat \<Rightarrow> cstring \<Rightarrow> command_fields \<Rightarrow> command_fields" where
  "set_redirect i target f = f\<lparr>redirects := (redirects f)[i := Ptr target]\<rparr>"

definition strip_quotes :: "cstring \<Rightarrow> cstring" where
  "strip_quotes arg =
     (if 2 < length arg \<and>
         ((hd arg = dquote \<and> last arg = dquote) \<or> (hd arg = squote \<and> last arg = squote))
      then butlast (tl arg) else arg)"

definition push_arg :: "cstring \<Rightarrow> command_fields \<Rightarrow> command_fields" where
  "push_arg arg f = f\<lparr>args := args f @ [Some arg]\<rparr>"

definition finish_args :: "command_fields \<Rightarrow> command_fields" where
  "finish_args f =
     f\<lparr>arg_count := length (args f) + 2, args := Some (name f) # args f @ [None]\<rparr>"

lemma strtok_delimited_length [shell_len]:
  assumes "strtok delim s = Some (tok, True, rest)"
  shows "length tok + length rest < length s"
proof -
  from assms obtain s1 where s1: "s1 = dropWhile (\<lambda>c. c \<in> set delim) s"
    and tok: "tok = takeWhile (\<lambda>c. c \<notin> set delim) s1"
    and dl: "True \<longleftrightarrow> dropWhile (\<lambda>c. c \<notin> set delim) s1 \<noteq> []"
    and rest: "rest = drop 1 (dropWhile (\<lambda>c. c \<notin> set delim) s1)"
    by (rule strtok_SomeE)
  let ?s2 = "dropWhile (\<lambda>c. c \<notin> set delim) s1"
  from dl have "length rest < length ?s2"
    unfolding rest by (cases ?s2) simp_all
  moreover have "length tok + length ?s2 = length s1"
    unfolding tok by (metis length_append takeWhile_dropWhile_id)
  moreover have "length s1 \<le> length s"
    unfolding s1 by (rule length_dropWhile_le)
  ultimately show ?thesis by linarith
qed

lemma length_pipe_rest [shell_len]:
  "strtok delim s = Some (pch, True, st) \<Longrightarrow> length (pipe_rest pch st) < length s"
  using strtok_delimited_length [of delim s pch st]
    length_dropWhile_le [of "\<lambda>c. c = CHR '' '' \<or> c = tab" "drop 1 (pch @ hd splitters # st)"]
  by (simp add: pipe_rest_def skip_blanks_def)

lemma length_first_token [shell_len]:
  "first_token buf = (nm, st) \<Longrightarrow> length st \<le> length buf"
  by (auto simp: first_token_def split: option.splits dest: strtok_Some_length)

lemma length_trim_left [shell_len]: "length (trim_left buf) \<le> length buf"
  by (simp add: trim_left_def length_dropWhile_le)

lemma length_trim_right [shell_len]: "length (trim_right buf) \<le> length buf"
  using length_dropWhile_le [of "strchr_found splitters" "rev buf"]
  by (simp add: trim_right_def)

function parse_command :: "(nat \<Rightarrow> command_t) \<Rightarrow> cstring \<Rightarrow> command_t \<Rightarrow> parse_error + command_t"
  and parse_args :: "(nat \<Rightarrow> command_t) \<Rightarrow> cstring \<Rightarrow> command_t \<Rightarrow> parse_error + command_t"
where
  "parse_command junk buf command =
     (let buf1 = trim_right (trim_left (c_str buf));
          command1 = map_fields (mark_flags buf1) command;
          command2 = map_fields (\<lambda>f. f\<lparr>name := fst (first_token buf1), args := []\<rparr>) command1
      in map_sum id (map_fields finish_args) (parse_args junk (snd (first_token buf1)) command2))"
| "parse_args junk st command =
     (case strtok splitters st of
        None \<Rightarrow> Inr command
      | Some (pch, dl, st') \<Rightarrow>
          if 1024 \<le> length pch then Inl TempBufOverflow
          else if pch = [] then parse_args junk st' command
          else if trim_right (trim_left pch) = [] then parse_args junk st' command
          else if strcmp_eq (trim_right (trim_left pch)) ''|'' then
            (if \<not> dl then Inl ReadPastTerminator
             else case parse_command (\<lambda>n. junk (Suc n)) (pipe_rest pch st') (junk 0) of
                    Inl e \<Rightarrow> Inl e
                  | Inr c \<Rightarrow> parse_args junk [] (set_next (Ptr c) command))
          else if strcmp_eq (trim_right (trim_left pch)) ''&'' then parse_args junk st' command
          else case redirect_of (trim_right (trim_left pch)) of
                 Some (i, target) \<Rightarrow> parse_args junk st' (map_fields (set_redirect i target) command)
               | None \<Rightarrow>
                   parse_args junk st'
                     (map_fields (push_arg (strip_quotes (trim_right (trim_left pch)))) command))"
  by pat_completeness auto
termination
proof (relation "measures [\<lambda>x. case x of Inl (junk, buf, command) \<Rightarrow> length buf | Inr (junk, st, command) \<Rightarrow> length st,
    \<lambda>x. case x of Inl _ \<Rightarrow> 1 | Inr _ \<Rightarrow> 0]", goal_cases)
  case 1
  show ?case by simp
next
  case (2 junk buf command buf1)
  have "length (snd (first_token (trim_right (trim_left (c_str buf))))) \<le> length buf"
    by (metis length_first_token length_trim_right length_trim_left length_c_str order_trans prod.collapse)
  with 2 show ?case by auto
qed (auto simp: strtok_Some_length length_pipe_rest dest: strtok_token_nonempty)

declare parse_command.simps [simp del] parse_args.simps [simp del]

section \<open>Splitters, trimming and tokens\<close>

abbreviation line_tokens :: "cstring \<Rightarrow> cstring list" where
  "line_tokens s \<equiv> tokens splitters s"

definition rtrimmed :: "cstring \<Rightarrow> bool" where
  "rtrimmed s \<longleftrightarrow> s = [] \<or> last s \<notin> set splitters"

lemma set_splitters: "set splitters = {CHR '' '', tab}"
  by (simp add: splitters_def)

lemma splitter_iff: "c \<in> set splitters \<longleftrightarrow> c = CHR '' '' \<or> c = tab"
  by (simp add: splitters_def)

lemma nul_not_splitter [simp]: "nul \<notin> set splitters"
  by (simp add: splitters_def)

lemma hd_splitters [simp]: "hd splitters = CHR '' ''"
  by (simp add: splitters_def)

lemma strchr_found_splitters:
  "strchr_found splitters c \<longleftrightarrow> c = CHR '' '' \<or> c = tab \<or> c = nul"
  by (auto simp: strchr_found_def splitters_def)

lemma trim_left_eq:
  assumes "nul \<notin> set s"
  shows "trim_left s = dropWhile (\<lambda>c. c \<in> set splitters) s"
  unfolding trim_left_def using assms
  by (intro dropWhile_cong refl) (auto simp: strchr_found_def)

lemma trim_right_eq:
  assumes "nul \<notin> set s"
  shows "trim_right s = rev (dropWhile (\<lambda>c. c \<in> set splitters) (rev s))"
  unfolding trim_right_def using assms
  by (intro arg_cong [where f = rev] dropWhile_cong refl) (auto simp: strchr_found_def)

lemma set_trim_left: "set (trim_left s) \<subseteq> set s"
  by (auto simp: trim_left_def dest: set_dropWhileD)

lemma set_trim_right: "set (trim_right s) \<subseteq> set s"
  by (auto simp: trim_right_def dest: set_dropWhileD)

lemma trim_right_decomp:
  assumes "nul \<notin> set s"
  obtains ds where "s = trim_right s @ ds" and "set ds \<subseteq> set splitters"
proof -
  let ?P = "\<lambda>c. c \<in> set splitters"
  have "rev s = takeWhile ?P (rev s) @ dropWhile ?P (rev s)" by simp
  then have "s = rev (dropWhile ?P (rev s)) @ rev (takeWhile ?P (rev s))"
    by (metis rev_append rev_rev_ident)
  then have "s = trim_right s @ rev (takeWhile ?P (rev s))"
    unfolding trim_right_eq [OF assms] .
  moreover have "set (rev (takeWhile ?P (rev s))) \<subseteq> set splitters"
    by (auto dest: set_takeWhileD)
  ultimately show ?thesis by (rule that)
qed

lemma tokens_trim_left:
  assumes "nul \<notin> set s"
  shows "line_tokens (trim_left s) = line_tokens s"
  unfolding trim_left_eq [OF assms] by (rule tokens_dropWhile)

lemma tokens_trim_right:
  assumes "nul \<notin> set s"
  shows "line_tokens (trim_right s) = line_tokens s"
proof -
  from assms obtain ds where "s = trim_right s @ ds" and "set ds \<subseteq> set splitters"
    by (rule trim_right_decomp)
  then show ?thesis
    using tokens_append_delims [of ds splitters "trim_right s"] by simp
qed

lemma rtrimmed_trim_right:
  assumes "nul \<notin> set s"
  shows "rtrimmed (trim_right s)"
  unfolding rtrimmed_def trim_right_eq [OF assms]
  using last_rev_dropWhile_rev [of "\<lambda>c. c \<in> set splitters" s] by blast

lemma trim_token:
  assumes "pch \<noteq> []" and "set pch \<inter> set splitters = {}" and "nul \<notin> set pch"
  shows "trim_right (trim_left pch) = pch"
proof -
  from assms have "hd pch \<notin> set splitters" and "last pch \<notin> set splitters"
    by (auto dest: hd_in_set last_in_set)
  with assms show ?thesis
    by (simp add: trim_left_eq trim_right_eq dropWhile_none rev_dropWhile_rev_id)
qed

lemma skip_blanks_eq: "skip_blanks s = dropWhile (\<lambda>c. c \<in> set splitters) s"
  unfolding skip_blanks_def by (intro dropWhile_cong refl) (simp add: splitter_iff)

lemma tokens_skip_blanks [simp]: "line_tokens (skip_blanks s) = line_tokens s"
  unfolding skip_blanks_eq by (rule tokens_dropWhile)

lemma tokens_pipe_rest: "line_tokens (pipe_rest ''|'' st) = line_tokens st"
  by (simp add: pipe_rest_def splitter_iff)

lemma set_pipe_rest: "set (pipe_rest pch st) \<subseteq> insert (CHR '' '') (set pch \<union> set st)"
proof -
  have "set (pipe_rest pch st) \<subseteq> set (pch @ CHR '' '' # st)"
    unfolding pipe_rest_def skip_blanks_def hd_splitters
    by (meson order_trans set_dropWhileD set_drop_subset subsetI)
  then show ?thesis by auto
qed

lemma strtok_rtrimmed_rest:
  assumes "strtok splitters st = Some (pch, dl, st')" and "rtrimmed st"
  shows "rtrimmed st' \<and> (dl \<longleftrightarrow> line_tokens st' \<noteq> [])"
  using assms(1)
proof (cases rule: strtok_decomp [consumes 1])
  case (1 pre d)
  with assms(2) have "st' \<noteq> []" and "last st' \<notin> set splitters"
    by (auto simp: rtrimmed_def split: if_splits)
  with 1 show ?thesis
    using last_last_tokens [of st' splitters] by (simp add: rtrimmed_def)
next
  case (2 pre)
  then show ?thesis by (simp add: rtrimmed_def)
qed

lemma strtok_rtrimmed:
  assumes "strtok splitters st = Some (pch, dl, st')" and "nul \<notin> set st" and "rtrimmed st"
  shows "nul \<notin> set st'" and "rtrimmed st'" and "dl \<longleftrightarrow> line_tokens st' \<noteq> []"
    and "line_tokens st = pch # line_tokens st'" and "trim_right (trim_left pch) = pch"
    and "pch \<noteq> []" and "nul \<notin> set pch"
proof -
  from assms(1,2) show "nul \<notin> set st'"
    using strtok_rest_set by fastforce
  from assms(1) show "line_tokens st = pch # line_tokens st'"
    by (rule tokens_Some)
  from assms(1) show ne: "pch \<noteq> []"
    by (rule strtok_token_nonempty)
  from assms(1,2) show nn: "nul \<notin> set pch"
    using strtok_token_set by fastforce
  with ne assms(1) show "trim_right (trim_left pch) = pch"
    by (intro trim_token strtok_token_no_delim)
  from strtok_rtrimmed_rest [OF assms(1,3)]
  show "rtrimmed st'" and "dl \<longleftrightarrow> line_tokens st' \<noteq> []"
    by simp_all
qed

lemma first_token_spec:
  assumes "nul \<notin> set b" and "rtrimmed b"
  shows "fst (first_token b) = (case line_tokens b of [] \<Rightarrow> [] | n # _ \<Rightarrow> n) \<and>
    line_tokens (snd (first_token b)) = tl (line_tokens b) \<and>
    nul \<notin> set (snd (first_token b)) \<and> rtrimmed (snd (first_token b))"
proof (cases "strtok splitters b")
  case None
  then show ?thesis by (simp add: first_token_def tokens_None rtrimmed_def)
next
  case (Some r)
  obtain pch dl st where r: "r = (pch, dl, st)" by (cases r)
  with Some strtok_rtrimmed [OF Some [unfolded r] assms] show ?thesis
    by (simp add: first_token_def)
qed

lemma mark_flags_tokens:
  assumes "nul \<notin> set b" and "rtrimmed b"
  shows "mark_flags b f =
    f\<lparr>auto_complete := auto_complete f \<or> (line_tokens b \<noteq> [] \<and> last (last (line_tokens b)) = CHR ''?''),
       background := background f \<or> (line_tokens b \<noteq> [] \<and> last (last (line_tokens b)) = CHR ''&'')\<rparr>"
proof (cases "b = []")
  case True
  then show ?thesis by (simp add: mark_flags_def)
next
  case False
  with assms(2) have "line_tokens b \<noteq> []" and "last (last (line_tokens b)) = last b"
    using last_last_tokens [of b splitters] by (simp_all add: rtrimmed_def)
  with False show ?thesis by (simp add: mark_flags_def)
qed

section \<open>Token-level specification\<close>

text \<open>
  What the parser computes, stated on the list of whitespace-separated tokens of the
  line instead of on the buffer: \<open>token_step\<close> is the effect of one ordinary token on
  a stage, \<open>stage_init\<close> the name and the two flags of a stage whose tokens are
  \<open>toks\<close>, \<open>spec_command\<close> the chain, and \<open>spec_error\<close> the first execution
  error met when the tokens after the name are read in order.
\<close>

definition token_step :: "cstring \<Rightarrow> command_fields \<Rightarrow> command_fields" where
  "token_step t f =
     (if t = ''&'' then f
      else case redirect_of t of
             Some (i, target) \<Rightarrow> set_redirect i target f
           | None \<Rightarrow> push_arg (strip_quotes t) f)"

definition stage_init :: "cstring list \<Rightarrow> command_fields \<Rightarrow> command_fields" where
  "stage_init toks f =
     f\<lparr>name := (case toks of [] \<Rightarrow> [] | n # _ \<Rightarrow> n), args := [],
       auto_complete := auto_complete f \<or> (toks \<noteq> [] \<and> last (last toks) = CHR ''?''),
       background := background f \<or> (toks \<noteq> [] \<and> last (last toks) = CHR ''&'')\<rparr>"

function spec_command :: "(nat \<Rightarrow> command_t) \<Rightarrow> cstring list \<Rightarrow> command_t \<Rightarrow> command_t"
  and spec_args :: "(nat \<Rightarrow> command_t) \<Rightarrow> cstring list \<Rightarrow> command_t \<Rightarrow> command_t"
where
  "spec_command junk toks c =
     map_fields finish_args (spec_args junk (tl toks) (map_fields (stage_init toks) c))"
| "spec_args junk [] c = c"
| "spec_args junk (t # ts) c =
     (if t = ''|'' then set_next (Ptr (spec_command (\<lambda>n. junk (Suc n)) ts (junk 0))) c
      else spec_args junk ts (map_fields (token_step t) c))"
  by pat_completeness auto
termination
  by (relation "measure (\<lambda>x. case x of Inl (junk, toks, c) \<Rightarrow> 2 * length toks + 1
                               | Inr (junk, toks, c) \<Rightarrow> 2 * length toks)") auto

fun spec_error :: "cstring list \<Rightarrow> parse_error option" where
  "spec_error [] = None"
| "spec_error (t # ts) =
     (if 1024 \<le> length t then Some TempBufOverflow
      else if t = ''|'' then (case ts of [] \<Rightarrow> Some ReadPastTerminator | n # ts' \<Rightarrow> spec_error ts')
      else spec_error ts)"

declare spec_command.simps [simp del]

section \<open>The parser implements the specification\<close>

lemma parse_args_Nil [simp]: "parse_args junk [] command = Inr command"
  by (simp add: parse_args.simps)

lemma redirect_of_not_amp_pipe [simp]:
  "redirect_of ''|'' = None" "redirect_of ''&'' = None"
  by (simp_all add: redirect_of_def)

lemma map_fields_id [simp]: "map_fields (\<lambda>f. f) c = c" "map_fields id c = c"
  by (cases c; simp)+

lemma token_step_amp [simp]: "token_step ''&'' = (\<lambda>f. f)"
  by (rule ext) (simp add: token_step_def)

lemma token_step_redirect:
  "redirect_of t = Some (i, target) \<Longrightarrow> token_step t = set_redirect i target"
  by (rule ext) (auto simp: token_step_def)

lemma token_step_plain:
  "redirect_of t = None \<Longrightarrow> t \<noteq> ''&'' \<Longrightarrow> token_step t = push_arg (strip_quotes t)"
  by (rule ext) (simp add: token_step_def)

lemma parse_args_step:
  assumes "strtok splitters st = Some (pch, dl, st')" and "nul \<notin> set st" and "rtrimmed st"
  shows "parse_args junk st command =
    (if 1024 \<le> length pch then Inl TempBufOverflow
     else if pch = ''|'' then
       (if line_tokens st' = [] then Inl ReadPastTerminator
        else case parse_command (\<lambda>n. junk (Suc n)) (pipe_rest pch st') (junk 0) of
               Inl e \<Rightarrow> Inl e
             | Inr c \<Rightarrow> Inr (set_next (Ptr c) command))
     else parse_args junk st' (map_fields (token_step pch) command))"
proof -
  note f = strtok_rtrimmed [OF assms]
  have dl: "(\<not> dl) = (line_tokens st' = [])"
    using f(3) by blast
  have unfold: "parse_args junk st command =
    (if 1024 \<le> length pch then Inl TempBufOverflow
     else if pch = [] then parse_args junk st' command
     else if pch = [] then parse_args junk st' command
     else if pch = ''|'' then
       (if line_tokens st' = [] then Inl ReadPastTerminator
        else case parse_command (\<lambda>n. junk (Suc n)) (pipe_rest pch st') (junk 0) of
               Inl e \<Rightarrow> Inl e
             | Inr c \<Rightarrow> parse_args junk [] (set_next (Ptr c) command))
     else if pch = ''&'' then parse_args junk st' command
     else case redirect_of pch of
            Some (i, target) \<Rightarrow> parse_args junk st' (map_fields (set_redirect i target) command)
          | None \<Rightarrow> parse_args junk st' (map_fields (push_arg (strip_quotes pch)) command))"
    by (simp only: parse_args.simps [of junk st command] assms(1) option.case prod.case f(5)
        strcmp_eq_iff dl)
  show ?thesis
    unfolding unfold using f(6)
    by (cases "redirect_of pch")
      (auto simp: token_step_redirect token_step_plain split: sum.split)
qed

lemma trimmed_line:
  fixes buf :: "char list"
  defines "b \<equiv> trim_right (trim_left (c_str buf))"
  shows "nul \<notin> set b" and "rtrimmed b" and "line_tokens b = line_tokens (c_str buf)"
    and "length b \<le> length buf"
proof -
  have nn: "nul \<notin> set (trim_left (c_str buf))"
    using set_trim_left [of "c_str buf"] by auto
  then show "nul \<notin> set b"
    unfolding b_def using set_trim_right [of "trim_left (c_str buf)"] by auto
  from nn show "rtrimmed b"
    unfolding b_def by (rule rtrimmed_trim_right)
  from nn show "line_tokens b = line_tokens (c_str buf)"
    unfolding b_def by (simp add: tokens_trim_right tokens_trim_left)
  show "length b \<le> length buf"
    unfolding b_def
    by (meson length_trim_right length_trim_left length_c_str order_trans)
qed

lemma stage_init_trimmed:
  assumes "nul \<notin> set b" and "rtrimmed b"
  shows "(mark_flags b f)\<lparr>name := fst (first_token b), args := []\<rparr> = stage_init (line_tokens b) f"
  by (simp add: mark_flags_tokens [OF assms] first_token_spec [OF assms] stage_init_def)

lemma parse_command_via_args:
  fixes buf :: "char list"
  defines "b \<equiv> trim_right (trim_left (c_str buf))"
  assumes args: "\<And>c. parse_args junk (snd (first_token b)) c =
    (case spec_error (line_tokens (snd (first_token b))) of
       Some e \<Rightarrow> Inl e
     | None \<Rightarrow> Inr (spec_args junk (line_tokens (snd (first_token b))) c))"
  shows "parse_command junk buf command =
    (case spec_error (tl (line_tokens (c_str buf))) of
       Some e \<Rightarrow> Inl e
     | None \<Rightarrow> Inr (spec_command junk (line_tokens (c_str buf)) command))"
proof -
  note t = trimmed_line [of buf, folded b_def]
  have toks: "line_tokens (snd (first_token b)) = tl (line_tokens (c_str buf))"
    using first_token_spec [OF t(1,2)] t(3) by simp
  have init: "map_fields (\<lambda>f. f\<lparr>name := fst (first_token b), args := []\<rparr>)
      (map_fields (mark_flags b) command) = map_fields (stage_init (line_tokens (c_str buf))) command"
    using stage_init_trimmed [OF t(1,2)] t(3) by (cases command) simp
  show ?thesis
    unfolding parse_command.simps [of junk buf command] Let_def b_def [symmetric] args init toks
    by (simp add: spec_command.simps split: option.split)
qed

lemma parse_args_refines:
  assumes "nul \<notin> set st" and "rtrimmed st"
  shows "parse_args junk st command =
    (case spec_error (line_tokens st) of
       Some e \<Rightarrow> Inl e
     | None \<Rightarrow> Inr (spec_args junk (line_tokens st) command))"
  using assms
proof (induction st arbitrary: junk command rule: measure_induct_rule [where f = length])
  case (less st)
  show ?case
  proof (cases "strtok splitters st")
    case None
    then show ?thesis
      by (simp add: parse_args.simps tokens_None)
  next
    case (Some r)
    obtain pch dl st' where r: "r = (pch, dl, st')" by (cases r)
    note tok = Some [unfolded r]
    note f = strtok_rtrimmed [OF tok less.prems]
    note step = parse_args_step [OF tok less.prems]
    from tok have len: "length st' < length st" by (rule strtok_Some_length)
    note IH = less.IH [OF len f(1,2)]
    show ?thesis
    proof (cases "pch = ''|'' \<and> line_tokens st' \<noteq> []")
      case False
      then show ?thesis
        unfolding step f(4) by (auto simp: IH split: option.split)
    next
      case True
      define buf where "buf = pipe_rest pch st'"
      define b where "b = trim_right (trim_left (c_str buf))"
      from tok f(3) True have "length buf < length st"
        unfolding buf_def by (intro length_pipe_rest [of splitters]) simp
      with trimmed_line(4) [of buf] length_first_token [of b "fst (first_token b)" "snd (first_token b)"]
      have len2: "length (snd (first_token b)) < length st"
        by (simp add: b_def)
      have "nul \<notin> set buf"
        using set_pipe_rest [of pch st'] f(1,7) by (auto simp: buf_def)
      then have buf: "line_tokens (c_str buf) = line_tokens st'"
        using True by (simp add: buf_def tokens_pipe_rest)
      have ft: "nul \<notin> set (snd (first_token b))" "rtrimmed (snd (first_token b))"
        using first_token_spec [OF trimmed_line(1,2), of buf] by (simp_all add: b_def)
      have "parse_args (\<lambda>n. junk (Suc n)) (snd (first_token b)) c =
        (case spec_error (line_tokens (snd (first_token b))) of
           Some e \<Rightarrow> Inl e
         | None \<Rightarrow> Inr (spec_args (\<lambda>n. junk (Suc n)) (line_tokens (snd (first_token b))) c))" for c
        by (rule less.IH [OF len2 ft])
      then have "parse_command (\<lambda>n. junk (Suc n)) buf (junk 0) =
        (case spec_error (tl (line_tokens (c_str buf))) of
           Some e \<Rightarrow> Inl e
         | None \<Rightarrow> Inr (spec_command (\<lambda>n. junk (Suc n)) (line_tokens (c_str buf)) (junk 0)))"
        unfolding b_def by (rule parse_command_via_args)
      with True show ?thesis
        unfolding step f(4) buf buf_def [symmetric]
        by (cases "line_tokens st'") (auto split: option.split)
    qed
  qed
qed

lemma parse_command_spec:
  "parse_command junk buf command =
    (case spec_error (tl (line_tokens (c_str buf))) of
       Some e \<Rightarrow> Inl e
     | None \<Rightarrow> Inr (spec_command junk (line_tokens (c_str buf)) command))"
  using first_token_spec [OF trimmed_line(1,2), of buf]
  by (intro parse_command_via_args parse_args_refines) simp_all

section \<open>Stages without a pipe\<close>

definition is_plain :: "cstring \<Rightarrow> bool" where
  "is_plain t \<longleftrightarrow> t \<noteq> ''&'' \<and> redirect_of t = None"

definition plain_args :: "cstring list \<Rightarrow> cstring option list" where
  "plain_args ts = map (\<lambda>t. Some (strip_quotes t)) (filter is_plain ts)"

definition redirect_targets :: "nat \<Rightarrow> cstring list \<Rightarrow> cstring list" where
  "redirect_targets i ts = map (\<lambda>t. snd (the (redirect_of t))) (filter (\<lambda>t. map_option fst (redirect_of t) = Some i) ts)"

lemma spec_args_no_pipe:
  "''|'' \<notin> set ts \<Longrightarrow> spec_args junk ts c = map_fields (fold token_step ts) c"
  by (induction ts arbitrary: c) (auto simp: comp_def)

lemma spec_error_no_pipe:
  "''|'' \<notin> set ts \<Longrightarrow> spec_error ts = (if \<forall>t \<in> set ts. length t < 1024 then None else Some TempBufOverflow)"
  by (induction ts) (auto simp: not_le)

lemma token_step_cases:
  obtains "t = ''&''" and "token_step t = (\<lambda>f. f)"
  | i target where "redirect_of t = Some (i, target)" and "token_step t = set_redirect i target"
      and "\<not> is_plain t"
  | "is_plain t" and "token_step t = push_arg (strip_quotes t)"
proof (cases "t = ''&''")
  case True
  then show ?thesis using that(1) by simp
next
  case False
  show ?thesis
  proof (cases "redirect_of t")
    case None
    with False show ?thesis
      using that(3) by (simp add: is_plain_def token_step_plain)
  next
    case (Some r)
    then show ?thesis
      using that(2) [of "fst r" "snd r"] by (simp add: is_plain_def token_step_redirect)
  qed
qed

lemma token_step_frame [simp]:
  "name (token_step t f) = name f" "background (token_step t f) = background f"
  "auto_complete (token_step t f) = auto_complete f" "arg_count (token_step t f) = arg_count f"
  "length (redirects (token_step t f)) = length (redirects f)"
  by (cases t rule: token_step_cases; simp add: set_redirect_def push_arg_def)+

lemma token_step_args:
  "args (token_step t f) = args f @ plain_args [t]"
  by (cases t rule: token_step_cases)
    (simp_all add: set_redirect_def push_arg_def plain_args_def is_plain_def)

lemma fold_token_step_frame [simp]:
  "name (fold token_step ts f) = name f" "background (fold token_step ts f) = background f"
  "auto_complete (fold token_step ts f) = auto_complete f"
  "arg_count (fold token_step ts f) = arg_count f"
  "length (redirects (fold token_step ts f)) = length (redirects f)"
  by (induction ts arbitrary: f; simp)+

lemma fold_token_step_args:
  "args (fold token_step ts f) = args f @ plain_args ts"
  by (induction ts arbitrary: f) (simp_all add: token_step_args plain_args_def)

lemma plain_args_Some: "None \<notin> set (plain_args ts)"
  by (auto simp: plain_args_def)

lemma length_plain_args_le: "length (plain_args ts) \<le> length ts"
  by (simp add: plain_args_def)

section \<open>Pipelines\<close>

function stage_names :: "cstring list \<Rightarrow> cstring list" where
  "stage_names toks =
     (case toks of [] \<Rightarrow> [] | n # _ \<Rightarrow> n) #
     (case dropWhile (\<lambda>t. t \<noteq> ''|'') (tl toks) of [] \<Rightarrow> [] | p # rest \<Rightarrow> stage_names rest)"
  by pat_completeness auto
termination
proof (relation "measure length", goal_cases)
  case (2 toks p rest)
  have "length (dropWhile (\<lambda>t. t \<noteq> ''|'') (tl toks)) \<le> length toks"
    using length_dropWhile_le [of "\<lambda>t. t \<noteq> ''|''" "tl toks"] by simp
  with 2 show ?case by simp
qed simp

declare stage_names.simps [simp del]

lemma stage_init_frame [simp]:
  "name (stage_init toks f) = (case toks of [] \<Rightarrow> [] | n # _ \<Rightarrow> n)"
  "args (stage_init toks f) = []" "redirects (stage_init toks f) = redirects f"
  by (simp_all add: stage_init_def)

lemma finish_args_frame [simp]:
  "name (finish_args f) = name f" "background (finish_args f) = background f"
  "auto_complete (finish_args f) = auto_complete f" "redirects (finish_args f) = redirects f"
  "args (finish_args f) = Some (name f) # args f @ [None]"
  "arg_count (finish_args f) = length (args f) + 2"
  by (simp_all add: finish_args_def)

definition own_tokens :: "cstring list \<Rightarrow> cstring list" where
  "own_tokens toks = takeWhile (\<lambda>t. t \<noteq> ''|'') (tl toks)"

lemma fields_spec_args:
  "fields (spec_args junk ts c) = fold token_step (takeWhile (\<lambda>t. t \<noteq> ''|'') ts) (fields c)"
  by (induction ts arbitrary: c) simp_all

lemma fields_spec_command:
  "fields (spec_command junk toks c) =
     finish_args (fold token_step (own_tokens toks) (stage_init toks (fields c)))"
  by (simp add: spec_command.simps fields_spec_args own_tokens_def)

lemma spec_stage_names:
  "(\<And>n. \<not> is_ptr (next_command (junk n))) \<Longrightarrow> \<not> is_ptr (next_command c) \<Longrightarrow>
     map name (stages (spec_command junk toks c)) = stage_names toks"
  "(\<And>n. \<not> is_ptr (next_command (junk n))) \<Longrightarrow> \<not> is_ptr (next_command c) \<Longrightarrow>
     map name (stages (spec_args junk ts c)) =
       name (fields c) # (case dropWhile (\<lambda>t. t \<noteq> ''|'') ts of [] \<Rightarrow> [] | p # rest \<Rightarrow> stage_names rest)"
proof (induction junk toks c and junk ts c rule: spec_command_spec_args.induct)
  case (1 junk toks c)
  then show ?case
    by (simp add: spec_command.simps [of junk toks c] stage_names.simps [of toks]
        fields_spec_args)
next
  case (2 junk c)
  then show ?case by (simp add: stages_no_ptr)
next
  case (3 junk t ts c)
  then show ?case by simp
qed

lemma spec_chain_terminated:
  "(\<And>n. next_command (junk n) = Wild) \<Longrightarrow>
     chain_terminated (spec_command junk toks c) \<longleftrightarrow> ''|'' \<notin> set (tl toks) \<and> chain_terminated c"
  "(\<And>n. next_command (junk n) = Wild) \<Longrightarrow>
     chain_terminated (spec_args junk ts c) \<longleftrightarrow> ''|'' \<notin> set ts \<and> chain_terminated c"
proof (induction junk toks c and junk ts c rule: spec_command_spec_args.induct)
  case (1 junk toks c)
  then show ?case
    by (simp add: spec_command.simps [of junk toks c])
next
  case (2 junk c)
  then show ?case by simp
next
  case (3 junk t ts c)
  then have "\<not> chain_terminated (junk 0)"
    by (cases "junk 0") (metis chain_terminated.simps(2) command_t.sel(2))
  with 3 show ?case by auto
qed

section \<open>Properties of parsed commands\<close>

lemma parse_command_InrD:
  assumes "parse_command junk buf command = Inr c"
  shows "c = spec_command junk (line_tokens (c_str buf)) command"
    and "spec_error (tl (line_tokens (c_str buf))) = None"
  using assms unfolding parse_command_spec [of junk buf command]
  by (simp_all split: option.splits)

text \<open>
  C1. Refinement: on every buffer \<open>parse_command\<close> returns exactly what the token-level
  specification prescribes for the whitespace-separated tokens of the buffer's C string:
  the first execution error met among the tokens after the name, or else the chain
  \<open>spec_command\<close> builds. The buffer handling of the C code (trimming, the saved
  position of \<open>strtok\<close>, the restored byte after a pipe token, the nested call on the
  raw rest of the line) is invisible at the level of tokens.
\<close>

theorem parse_command_refines:
  "(parse_command junk buf command = Inr c \<longleftrightarrow>
      spec_error (tl (line_tokens (c_str buf))) = None \<and>
      c = spec_command junk (line_tokens (c_str buf)) command) \<and>
   (parse_command junk buf command = Inl e \<longleftrightarrow>
      spec_error (tl (line_tokens (c_str buf))) = Some e)"
  by (auto simp: parse_command_spec split: option.splits)

text \<open>
  C5. The first stage of a successfully parsed line: its name is the first token (the
  empty string for a blank line), and its argument vector is the name, then the
  ordinary tokens that precede the first pipe token in their order, each with one layer
  of matching quotes removed, then the terminating NULL entry; \<open>arg_count\<close> counts
  all of them. Redirection tokens and the token \<open>&\<close> are not arguments.
\<close>

theorem parse_head_stage:
  assumes "parse_command junk buf command = Inr c"
  shows "name (fields c) = (case line_tokens (c_str buf) of [] \<Rightarrow> [] | n # _ \<Rightarrow> n) \<and>
    args (fields c) =
      Some (name (fields c)) # plain_args (own_tokens (line_tokens (c_str buf))) @ [None] \<and>
    arg_count (fields c) = length (plain_args (own_tokens (line_tokens (c_str buf)))) + 2"
  unfolding parse_command_InrD(1) [OF assms]
  by (simp add: fields_spec_command fold_token_step_args)

theorem parse_head_stage_witness:
  "parse_command (\<lambda>_. zero_command) ''ls -l  \"/tmp\" >out &'' zero_command =
     Inr (Command \<lparr>name = ''ls'', background = True, auto_complete = False, arg_count = 4,
       args = [Some ''ls'', Some ''-l'', Some ''/tmp'', None],
       redirects = [Null, Ptr ''out'', Null]\<rparr> Null) \<and>
   plain_args (own_tokens (line_tokens (c_str ''ls -l  \"/tmp\" >out &''))) =
     [Some ''-l'', Some ''/tmp'']"
proof -
  have p: "parse_command (\<lambda>_. zero_command) ''ls -l  \"/tmp\" >out &'' zero_command =
     Inr (Command \<lparr>name = ''ls'', background = True, auto_complete = False, arg_count = 4,
       args = [Some ''ls'', Some ''-l'', Some ''/tmp'', None],
       redirects = [Null, Ptr ''out'', Null]\<rparr> Null)"
    by code_simp
  from parse_head_stage [OF p] p show ?thesis by simp
qed

text \<open>
  C8. The two flags of the first stage: \<open>auto_complete\<close> and \<open>background\<close> are set
  exactly when the last character of the trimmed line, which is the last character of
  its last token, is \<open>?\<close> respectively \<open>&\<close>; a flag that was already set in the
  struct stays set.
\<close>

theorem parse_flags:
  assumes "parse_command junk buf command = Inr c"
  shows "(background (fields c) \<longleftrightarrow> background (fields command) \<or>
      (line_tokens (c_str buf) \<noteq> [] \<and> last (last (line_tokens (c_str buf))) = CHR ''&'')) \<and>
    (auto_complete (fields c) \<longleftrightarrow> auto_complete (fields command) \<or>
      (line_tokens (c_str buf) \<noteq> [] \<and> last (last (line_tokens (c_str buf))) = CHR ''?''))"
  unfolding parse_command_InrD(1) [OF assms]
  by (simp add: fields_spec_command) (simp add: stage_init_def)

theorem parse_flags_witness:
  "parse_command (\<lambda>_. zero_command) ''sleep 5 &'' zero_command =
     Inr (Command \<lparr>name = ''sleep'', background = True, auto_complete = False, arg_count = 3,
       args = [Some ''sleep'', Some ''5'', None], redirects = [Null, Null, Null]\<rparr> Null) \<and>
   last (last (line_tokens (c_str ''sleep 5 &''))) = CHR ''&''"
proof -
  have p: "parse_command (\<lambda>_. zero_command) ''sleep 5 &'' zero_command =
     Inr (Command \<lparr>name = ''sleep'', background = True, auto_complete = False, arg_count = 3,
       args = [Some ''sleep'', Some ''5'', None], redirects = [Null, Null, Null]\<rparr> Null)"
    by code_simp
  from parse_flags [OF p] p show ?thesis
    by (simp add: zero_fields_def)
qed

text \<open>
  C36. The names along the chain of a successfully parsed line are the first tokens of its
  pipeline segments in order: the chain has one stage for the line and one more for
  every pipe token that is read as an operator, and each stage is named by the token
  that follows the pipe. (The structs handed in must not themselves point to further
  stages.)
\<close>

theorem parse_pipeline_names:
  assumes "parse_command junk buf command = Inr c"
    and "\<not> is_ptr (next_command command)" and "\<forall>n. \<not> is_ptr (next_command (junk n))"
  shows "map name (stages c) = stage_names (line_tokens (c_str buf))"
  unfolding parse_command_InrD(1) [OF assms(1)]
  using assms(2,3) by (intro spec_stage_names) simp_all

theorem parse_pipeline_names_witness:
  "\<not> is_ptr (next_command zero_command) \<and>
   (\<exists>c. parse_command (\<lambda>_. zero_command) ''a | b | c'' zero_command = Inr c \<and>
     map name (stages c) = [''a'', ''b'', ''c''])"
proof -
  define c where "c = Command (finish_args (zero_fields\<lparr>name := ''a''\<rparr>))
    (Ptr (Command (finish_args (zero_fields\<lparr>name := ''b''\<rparr>))
      (Ptr (Command (finish_args (zero_fields\<lparr>name := ''c''\<rparr>)) Null))))"
  have p: "parse_command (\<lambda>_. zero_command) ''a | b | c'' zero_command = Inr c"
    unfolding c_def by code_simp
  have "stage_names (line_tokens (c_str ''a | b | c'')) = [''a'', ''b'', ''c'']"
    by code_simp
  with parse_pipeline_names [OF p] p show ?thesis
    by auto
qed

lemma spec_error_short:
  "\<forall>t \<in> set ts. length t < 1024 \<Longrightarrow> ts = [] \<or> last ts \<noteq> ''|'' \<Longrightarrow> spec_error ts = None"
proof (induction ts rule: spec_error.induct)
  case (2 t ts)
  then show ?case
    by (cases ts) (auto split: if_splits)
qed simp


lemma spec_error_long:
  "t \<in> set (takeWhile (\<lambda>t. t \<noteq> ''|'') ts) \<Longrightarrow> 1024 \<le> length t \<Longrightarrow>
     spec_error ts = Some TempBufOverflow"
  by (induction ts) (auto split: if_splits)

text \<open>
  A pipeline is never a NULL-terminated chain: when the struct of every nested stage
  comes from \<open>malloc\<close> with an indeterminate \<open>next\<close> field, the chain parsed into a
  cleared struct ends in NULL exactly when no pipe token follows the command name.
  After any pipe the last stage keeps the indeterminate pointer, because
  \<open>parse_command\<close> assigns \<open>next\<close> only when it meets a pipe.
\<close>

theorem parse_chain_terminated_iff:
  assumes "parse_command junk buf zero_command = Inr c"
    and "\<forall>n. next_command (junk n) = Wild"
  shows "chain_terminated c \<longleftrightarrow> ''|'' \<notin> set (tl (line_tokens (c_str buf)))"
  unfolding parse_command_InrD(1) [OF assms(1)]
  using assms(2) by (simp add: spec_chain_terminated zero_command_def)

theorem parse_chain_terminated_iff_witness:
  "next_command (Command zero_fields Wild) = Wild \<and>
   (\<exists>c. parse_command (\<lambda>_. Command zero_fields Wild) ''ls | wc'' zero_command = Inr c \<and>
     \<not> chain_terminated c)"
proof -
  define c where "c = Command (finish_args (zero_fields\<lparr>name := ''ls''\<rparr>))
    (Ptr (Command (finish_args (zero_fields\<lparr>name := ''wc''\<rparr>)) Wild))"
  have p: "parse_command (\<lambda>_. Command zero_fields Wild) ''ls | wc'' zero_command = Inr c"
    unfolding c_def by code_simp
  have "''|'' \<in> set (tl (line_tokens (c_str ''ls | wc'')))"
    by code_simp
  with parse_chain_terminated_iff [OF p] p show ?thesis
    by auto
qed

text \<open>
  C4. Parsing succeeds, staying inside defined behaviour, on every line all of whose
  tokens are shorter than the 1024 bytes of \<open>temp_buf\<close> and that does not end in a
  pipe token; in particular on every line shorter than 1024 bytes that does not end in
  a pipe.
\<close>

theorem parse_succeeds:
  assumes "\<forall>t \<in> set (line_tokens (c_str buf)). length t < 1024"
    and "tl (line_tokens (c_str buf)) = [] \<or> last (line_tokens (c_str buf)) \<noteq> ''|''"
  shows "\<exists>c. parse_command junk buf command = Inr c"
proof -
  let ?toks = "line_tokens (c_str buf)"
  from assms(1) have "\<forall>t \<in> set (tl ?toks). length t < 1024"
    by (cases "line_tokens (c_str buf)") simp_all
  moreover from assms(2) have "tl ?toks = [] \<or> last (tl ?toks) \<noteq> ''|''"
    by (cases ?toks) (auto split: if_splits)
  ultimately have "spec_error (tl ?toks) = None"
    by (rule spec_error_short)
  then show ?thesis
    by (simp add: parse_command_spec)
qed

theorem parse_succeeds_witness:
  "last (line_tokens (c_str ''cat <in | sort'')) \<noteq> ''|'' \<and>
   (\<exists>c. parse_command (\<lambda>_. zero_command) ''cat <in | sort'' zero_command = Inr c)"
proof -
  have toks: "line_tokens (c_str ''cat <in | sort'') = [''cat'', ''<in'', ''|'', ''sort'']"
    by code_simp
  have h: "\<forall>t \<in> set (line_tokens (c_str ''cat <in | sort'')). length t < 1024"
    "last (line_tokens (c_str ''cat <in | sort'')) \<noteq> ''|''"
    unfolding toks by simp_all
  from parse_succeeds [OF h(1) disjI2 [OF h(2)]] h(2) show ?thesis by blast
qed



text \<open>
  A token of 1024 bytes or more that precedes the first pipe overflows
  \<open>temp_buf\<close>: the \<open>strcpy\<close> of line 153 has no bound, and the model reports
  \<open>TempBufOverflow\<close>. The command name itself is not copied and may be longer.
\<close>

theorem parse_token_too_long:
  assumes "t \<in> set (own_tokens (line_tokens (c_str buf)))" and "1024 \<le> length t"
  shows "parse_command junk buf command = Inl TempBufOverflow"
  using spec_error_long [of t "tl (line_tokens (c_str buf))"] assms
  by (simp add: parse_command_spec own_tokens_def)

theorem parse_token_too_long_witness:
  "replicate 1024 CHR ''x'' \<in> set (own_tokens (line_tokens (c_str (''echo '' @ replicate 1024 CHR ''x'')))) \<and>
   parse_command (\<lambda>_. zero_command) (''echo '' @ replicate 1024 CHR ''x'') zero_command =
     Inl TempBufOverflow"
proof -
  have nn: "nul \<notin> set (''echo '' @ replicate 1024 CHR ''x'')"
    by auto
  have "line_tokens (''echo'' @ CHR '' '' # replicate 1024 CHR ''x'') =
      ''echo'' # line_tokens (replicate 1024 CHR ''x'')"
    by (rule tokens_word) (auto simp: splitter_iff)
  also have "line_tokens (replicate 1024 CHR ''x'') = [replicate 1024 CHR ''x'']"
    by (rule tokens_last_word) (auto simp: splitter_iff)
  finally have toks: "line_tokens (c_str (''echo '' @ replicate 1024 CHR ''x'')) =
      [''echo'', replicate 1024 CHR ''x'']"
    using nn by simp
  have "length (replicate 1024 CHR ''x'') \<noteq> length ''|''"
    by simp
  then have "replicate 1024 CHR ''x'' \<noteq> ''|''"
    by (metis (no_types))
  then have h: "replicate 1024 CHR ''x'' \<in> set (own_tokens (line_tokens (c_str (''echo '' @ replicate 1024 CHR ''x''))))"
    unfolding toks own_tokens_def by simp
  from parse_token_too_long [OF h] h show ?thesis by simp
qed

lemma wf_args_finish_args:
  "None \<notin> set (args f) \<Longrightarrow> wf_args (finish_args f)"
  by (simp add: wf_args_def butlast_append)

lemma spec_stages_wf:
  "(\<And>n. \<not> is_ptr (next_command (junk n)) \<and> length (redirects (fields (junk n))) = 3) \<Longrightarrow>
     \<not> is_ptr (next_command c) \<Longrightarrow> length (redirects (fields c)) = 3 \<Longrightarrow>
     \<forall>f \<in> set (stages (spec_command junk toks c)). wf_stage f"
  "(\<And>n. \<not> is_ptr (next_command (junk n)) \<and> length (redirects (fields (junk n))) = 3) \<Longrightarrow>
     \<not> is_ptr (next_command c) \<Longrightarrow> length (redirects (fields c)) = 3 \<Longrightarrow>
     \<forall>f \<in> set (tl (stages (spec_args junk ts c))). wf_stage f"
proof (induction junk toks c and junk ts c rule: spec_command_spec_args.induct)
  case (1 junk toks c)
  have "wf_stage (finish_args (fold token_step (own_tokens toks) (stage_init toks (fields c))))"
    using "1.prems"(3)
    by (simp add: wf_stage_def wf_args_finish_args fold_token_step_args plain_args_Some)
  with 1 show ?case
    by (simp add: spec_command.simps [of junk toks c] stages_map_fields fields_spec_args
        own_tokens_def)
next
  case (2 junk c)
  then show ?case by (simp add: stages_no_ptr)
next
  case (3 junk t ts c)
  then show ?case by simp
qed

text \<open>
  C6. Every stage of a parsed chain is well formed: its argument vector has at least two
  entries, starts with a copy of the stage's name, ends with the one NULL entry it
  contains, \<open>arg_count\<close> is the length of the vector, and the redirection array keeps
  its three slots. (The structs handed in have three slots and point to no further
  stage.)
\<close>

theorem parse_wf_stages:
  assumes "parse_command junk buf command = Inr c"
    and "\<forall>n. \<not> is_ptr (next_command (junk n)) \<and> length (redirects (fields (junk n))) = 3"
    and "\<not> is_ptr (next_command command)" and "length (redirects (fields command)) = 3"
  shows "\<forall>f \<in> set (stages c). wf_stage f"
  unfolding parse_command_InrD(1) [OF assms(1)]
  using assms(2-4) by (intro spec_stages_wf) simp_all

theorem parse_wf_stages_witness:
  "(\<exists>c. parse_command (\<lambda>_. Command zero_fields Wild) ''du -s | sort -n'' zero_command = Inr c \<and>
     length (stages c) = 2 \<and> (\<forall>f \<in> set (stages c). wf_stage f))"
proof -
  define c where "c = Command (finish_args (push_arg ''-s'' (zero_fields\<lparr>name := ''du''\<rparr>)))
    (Ptr (Command (finish_args (push_arg ''-n'' (zero_fields\<lparr>name := ''sort''\<rparr>))) Wild))"
  have p: "parse_command (\<lambda>_. Command zero_fields Wild) ''du -s | sort -n'' zero_command = Inr c"
    unfolding c_def by code_simp
  have "\<forall>f \<in> set (stages c). wf_stage f"
    by (rule parse_wf_stages [OF p]) (simp_all add: zero_fields_def)
  with p show ?thesis
    by (auto simp: c_def)
qed

section \<open>Redirections\<close>

lemma redirect_of_iff:
  "redirect_of t = Some (0, x) \<longleftrightarrow> t = CHR ''<'' # x"
  "redirect_of t = Some (Suc 0, x) \<longleftrightarrow> t = CHR ''>'' # x \<and> (x = [] \<or> hd x \<noteq> CHR ''>'')"
  "redirect_of t = Some (2, x) \<longleftrightarrow> t = CHR ''>'' # CHR ''>'' # x"
  by (auto simp: redirect_of_def split: list.splits if_splits)

lemma redirect_of_index: "redirect_of t = Some (i, x) \<Longrightarrow> i < 3"
  by (auto simp: redirect_of_def split: list.splits if_splits)

lemma redirect_targets_snoc:
  "redirect_targets i (ts @ [t]) =
     redirect_targets i ts @ (case redirect_of t of Some (j, x) \<Rightarrow> if j = i then [x] else [] | None \<Rightarrow> [])"
  by (auto simp: redirect_targets_def split: option.splits)

lemma redirects_fold_token_step:
  "i < length (redirects f) \<Longrightarrow>
     redirects (fold token_step ts f) ! i =
       (if redirect_targets i ts = [] then redirects f ! i
        else Ptr (last (redirect_targets i ts)))"
proof (induction ts rule: rev_induct)
  case Nil
  then show ?case by (simp add: redirect_targets_def)
next
  case (snoc t ts)
  show ?case
  proof (cases t rule: token_step_cases)
    case 1
    with snoc show ?thesis
      by (simp add: redirect_targets_snoc)
  next
    case (2 j x)
    with snoc show ?thesis
      by (cases "j = i")
        (simp_all add: redirect_targets_snoc set_redirect_def)
  next
    case 3
    with snoc show ?thesis
      by (simp add: redirect_targets_snoc push_arg_def is_plain_def)
  qed
qed

text \<open>
  C7. Redirection slots of the first stage: slot 0 (input), 1 (truncating output) or 2
  (appending output) of a line parsed into a cleared struct holds the text that follows
  \<open><\<close>, \<open>>\<close> respectively \<open>>>\<close> inside the last token of that kind before the
  first pipe, and NULL when there is no such token.
\<close>

theorem parse_redirects:
  assumes "parse_command junk buf zero_command = Inr c" and "i < 3"
  shows "redirects (fields c) ! i =
    (if redirect_targets i (own_tokens (line_tokens (c_str buf))) = [] then Null
     else Ptr (last (redirect_targets i (own_tokens (line_tokens (c_str buf))))))"
proof -
  have "redirects (stage_init toks zero_fields) = [Null, Null, Null]" for toks
    by (simp add: zero_fields_def)
  with assms(2) show ?thesis
    unfolding parse_command_InrD(1) [OF assms(1)]
    by (auto simp: fields_spec_command redirects_fold_token_step less_Suc_eq numeral_3_eq_3)
qed

theorem parse_redirects_witness:
  "(1::nat) < 3 \<and>
   redirect_targets 1 (own_tokens (line_tokens (c_str ''sort <in >a >b | uniq''))) = [''a'', ''b''] \<and>
   (\<exists>c. parse_command (\<lambda>_. zero_command) ''sort <in >a >b | uniq'' zero_command = Inr c \<and>
     redirects (fields c) ! 1 = Ptr ''b'')"
proof -
  define c where "c = Command (finish_args (zero_fields\<lparr>name := ''sort'',
      redirects := [Ptr ''in'', Ptr ''b'', Null]\<rparr>))
    (Ptr (Command (finish_args (zero_fields\<lparr>name := ''uniq''\<rparr>)) Null))"
  have p: "parse_command (\<lambda>_. zero_command) ''sort <in >a >b | uniq'' zero_command = Inr c"
    unfolding c_def by code_simp
  have t: "redirect_targets 1 (own_tokens (line_tokens (c_str ''sort <in >a >b | uniq''))) = [''a'', ''b'']"
    by code_simp
  from parse_redirects [OF p, of 1] p t show ?thesis
    by auto
qed

section \<open>Operators separated from their operand, and checks that never fire\<close>

definition word :: "cstring \<Rightarrow> bool" where
  "word w \<longleftrightarrow> w \<noteq> [] \<and> nul \<notin> set w \<and> (\<forall>c \<in> set w. c \<notin> set splitters)"

lemma wordD:
  assumes "word w"
  shows "w \<noteq> []" and "nul \<notin> set w" and "set w \<inter> set splitters = {}"
  using assms by (auto simp: word_def)

lemma tokens_three_words:
  assumes "word a" and "word b" and "word c"
  shows "line_tokens (c_str (a @ CHR '' '' # b @ CHR '' '' # c)) = [a, b, c]"
proof -
  note a = wordD [OF assms(1)] and b = wordD [OF assms(2)] and c = wordD [OF assms(3)]
  have sp: "CHR '' '' \<in> set splitters"
    by (simp add: splitter_iff)
  from a(2) b(2) c(2) have "nul \<notin> set (a @ CHR '' '' # b @ CHR '' '' # c)"
    by simp
  then have "line_tokens (c_str (a @ CHR '' '' # b @ CHR '' '' # c)) =
      line_tokens (a @ CHR '' '' # b @ CHR '' '' # c)"
    by (rule arg_cong [OF c_str_id])
  also have "\<dots> = a # line_tokens (b @ CHR '' '' # c)"
    by (rule tokens_word [OF a(1) a(3) sp])
  also have "line_tokens (b @ CHR '' '' # c) = b # line_tokens c"
    by (rule tokens_word [OF b(1) b(3) sp])
  also have "line_tokens c = [c]"
    by (rule tokens_last_word [OF c(1) c(3)])
  finally show ?thesis .
qed

text \<open>
  C9. A redirection operator must touch its target: in \<open>name > file\<close>, with blanks
  around the operator, the token \<open>>\<close> alone records the empty string as the target of
  the truncating output redirection, and \<open>file\<close> is passed on as an ordinary argument.
\<close>

theorem parse_spaced_redirect:
  assumes "word nm" and "word target" and "length target < 1024" and "is_plain target"
    and "target \<noteq> ''|''" and "last target \<noteq> CHR ''&''" and "last target \<noteq> CHR ''?''"
  shows "parse_command junk (nm @ CHR '' '' # ''>'' @ CHR '' '' # target) zero_command =
    Inr (Command \<lparr>name = nm, background = False, auto_complete = False, arg_count = 3,
      args = [Some nm, Some (strip_quotes target), None],
      redirects = [Null, Ptr [], Null]\<rparr> Null)"
proof -
  have "word ''>''" by (simp add: word_def splitter_iff)
  then have toks: "line_tokens (c_str (nm @ CHR '' '' # ''>'' @ CHR '' '' # target)) =
      [nm, ''>'', target]"
    by (rule tokens_three_words [OF assms(1) _ assms(2)])
  have r: "token_step ''>'' = set_redirect 1 []"
    by (rule token_step_redirect) (simp add: redirect_of_def)
  from assms(4,5) have p: "token_step target = push_arg (strip_quotes target)"
    by (intro token_step_plain) (simp_all add: is_plain_def)
  have e: "spec_error [''>'', target] = None"
    using assms(3,5) by simp
  have "spec_command junk [nm, ''>'', target] zero_command =
    Command (finish_args (push_arg (strip_quotes target) (set_redirect 1 []
      (stage_init [nm, ''>'', target] zero_fields)))) Null"
    using assms(5) by (simp add: spec_command.simps r p zero_command_def)
  also have "\<dots> = Command \<lparr>name = nm, background = False, auto_complete = False, arg_count = 3,
      args = [Some nm, Some (strip_quotes target), None],
      redirects = [Null, Ptr [], Null]\<rparr> Null"
    using assms(6,7)
    by (simp add: zero_fields_def stage_init_def set_redirect_def push_arg_def finish_args_def)
  finally show ?thesis
    unfolding parse_command_spec toks using e by simp
qed

theorem parse_spaced_redirect_witness:
  "word ''ls'' \<and> word ''out.txt'' \<and> is_plain ''out.txt'' \<and>
   parse_command (\<lambda>_. zero_command) ''ls > out.txt'' zero_command =
    Inr (Command \<lparr>name = ''ls'', background = False, auto_complete = False, arg_count = 3,
      args = [Some ''ls'', Some ''out.txt'', None],
      redirects = [Null, Ptr [], Null]\<rparr> Null)"
proof -
  have h: "word ''ls''" "word ''out.txt''" "is_plain ''out.txt''"
    by (simp_all add: word_def is_plain_def redirect_of_def splitter_iff)
  have "strip_quotes ''out.txt'' = ''out.txt''"
    by (simp add: strip_quotes_def)
  with parse_spaced_redirect [OF h(1,2) _ h(3), of "\<lambda>_. zero_command"] h show ?thesis
    by simp
qed

text \<open>
  Inside the argument loop the two emptiness tests (lines 157 and 173) never succeed
  and the two trimming loops (lines 161-170) never change the token: a token that
  \<open>strtok\<close> returns from a NUL-free buffer is non-empty and neither starts nor ends
  with a splitter.
\<close>

theorem token_checks_never_fire:
  assumes "strtok splitters st = Some (pch, dl, st')" and "nul \<notin> set st"
  shows "pch \<noteq> [] \<and> trim_right (trim_left pch) = pch"
proof -
  from assms have "nul \<notin> set pch"
    using strtok_token_set by fastforce
  from strtok_token_nonempty [OF assms(1)] strtok_token_no_delim [OF assms(1)] this
  show ?thesis
    by (simp add: trim_token)
qed

theorem token_checks_never_fire_witness:
  "strtok splitters ''  -la  /tmp'' = Some (''-la'', True, '' /tmp'') \<and>
   trim_right (trim_left ''-la'') = ''-la''"
proof -
  have h: "strtok splitters ''  -la  /tmp'' = Some (''-la'', True, '' /tmp'')"
    by code_simp
  from token_checks_never_fire [OF h] h show ?thesis by simp
qed

end
