(* ===== verification/LineEditor.thy ===== *)
theory LineEditor
  imports Parser
begin

text \<open>
  The line editor of the shell: \<open>prompt_backspace\<close> (lines 255-259) and \<open>prompt\<close>
  (lines 267-357) of \<open>src/src/shell-skeleton.c\<close>.

  The state of the editor is the record \<open>editor\<close>: the stack array \<open>buf\<close> of 4096
  bytes with the write position \<open>index\<close>, the string held by the static array
  \<open>oldbuf\<close>, whether the terminal is in the raw mode \<open>prompt\<close> sets, and the bytes
  written to the terminal. The array \<open>buf\<close> is not initialised by the code except for
  its first byte, so its initial content is a parameter of \<open>prompt\<close>. One iteration
  of the loop is \<open>key_step\<close>; it continues, breaks out of the loop, returns \<open>EXIT\<close>
  or leaves defined behaviour (a write past the array, or a \<open>strcpy\<close> from an array
  that holds no NUL). \<open>getchar\<close> at the end of the input returns \<open>EOF\<close>, which the
  code stores in a \<open>char\<close>: the byte 255, for every further call.

  The lemmas relate the loop to the line a user means to type (\<open>edit_keys\<close>), show
  that the loop always ends, what \<open>prompt\<close> returns for a line that ends with Enter,
  what it leaves behind on Ctrl-D, and how the history recall can run the write
  position past the array. The invariant \<open>editor_ok\<close> (the buffer has its 4096 bytes,
  the history slot holds a string that fits it) is kept by every key and by \<open>prompt\<close>,
  and the loop reads a prefix of its input. The terminal is a line with a cursor
  (\<open>term_step\<close>, \<open>render\<close>): what it shows left of the cursor while a line is typed
  is the prompt string followed by the edited line.
\<close>

section \<open>State and single keys\<close>

datatype edit_error = BufferOverflow | UnterminatedCopy

record editor =
  buf :: "char list"
  index :: nat
  oldbuf :: cstring
  raw_mode :: bool
  screen :: "char list"

datatype step_result = Continue editor | Break editor | Return_exit editor | Fault edit_error

definition BUFSZ :: nat where
  "BUFSZ = 4096"

definition prompt_backspace :: "editor \<Rightarrow> editor" where
  "prompt_backspace e = e\<lparr>screen := screen e @ [CHR 8, CHR '' '', CHR 8]\<rparr>"

function erase_line :: "editor \<Rightarrow> editor" where
  "erase_line e =
     (if 0 < index e then erase_line ((prompt_backspace e)\<lparr>index := index e - 1\<rparr>) else e)"
  by pat_completeness auto

termination
  by (relation "measure index") (auto simp: prompt_backspace_def)

declare erase_line.simps [simp del]

definition strcpy :: "char list \<Rightarrow> cstring \<Rightarrow> char list" where
  "strcpy dst src = src @ nul # drop (length src + 1) dst"

definition history_swap :: "editor \<Rightarrow> step_result" where
  "history_swap e =
     (if nul \<notin> set (buf e) then Fault UnterminatedCopy
      else if BUFSZ < length (oldbuf e) + 1 then Fault BufferOverflow
      else Continue (e\<lparr>screen := screen e @ oldbuf e,
                       buf := strcpy (buf e) (oldbuf e),
                       oldbuf := c_str (buf e),
                       index := index e + strlen (oldbuf e)\<rparr>))"

definition is_ignored :: "char \<Rightarrow> bool" where
  "is_ignored c \<longleftrightarrow>
     c = CHR 27 \<or> c = CHR 91 \<or> c = CHR 66 \<or> c = CHR 67 \<or> c = CHR 68"

definition key_step :: "char \<Rightarrow> editor \<Rightarrow> step_result" where
  "key_step c e =
     (if c = CHR 9 then
        (if BUFSZ \<le> index e then Fault BufferOverflow
         else Break (e\<lparr>buf := (buf e)[index e := CHR ''?''], index := index e + 1\<rparr>))
      else if c = CHR 127 then
        Continue (if 0 < index e then (prompt_backspace e)\<lparr>index := index e - 1\<rparr> else e)
      else if is_ignored c then Continue e
      else if c = CHR 65 then history_swap (erase_line e)
      else if BUFSZ \<le> index e then Fault BufferOverflow
      else let e' = e\<lparr>screen := screen e @ [c], buf := (buf e)[index e := c],
                        index := index e + 1\<rparr>
           in if BUFSZ - 1 \<le> index e' then Break e'
              else if c = newline then Break e'
              else if c = CHR 4 then Return_exit e'
              else Continue e')"

section \<open>The loop\<close>

definition getchar :: "char list \<Rightarrow> char \<times> char list" where
  "getchar input = (case input of [] \<Rightarrow> (CHR 0xFF, []) | c # rest \<Rightarrow> (c, rest))"

lemma key_step_eof:
  assumes "key_step (CHR 0xFF) e = Continue e'"
  shows "index e' = index e + 1" and "index e' < BUFSZ - 1"
  using assms by (auto simp: key_step_def is_ignored_def Let_def split: if_splits)

datatype loop_end = Broke editor | Exited editor | Faulted edit_error

function prompt_loop :: "char list \<Rightarrow> editor \<Rightarrow> loop_end \<times> char list" where
  "prompt_loop input e =
     (case key_step (fst (getchar input)) e of
        Continue e' \<Rightarrow> prompt_loop (snd (getchar input)) e'
      | Break e' \<Rightarrow> (Broke e', snd (getchar input))
      | Return_exit e' \<Rightarrow> (Exited e', snd (getchar input))
      | Fault err \<Rightarrow> (Faulted err, snd (getchar input)))"
  by pat_completeness auto

termination
proof (relation "measures [\<lambda>(input, e). length input, \<lambda>(input, e). BUFSZ - index e]", goal_cases)
  case 1
  show ?case by simp
next
  case (2 input e e')
  show ?case
  proof (cases input)
    case Nil
    with 2 have "key_step (CHR 0xFF) e = Continue e'"
      by (simp add: getchar_def)
    from key_step_eof [OF this] Nil show ?thesis
      by (simp add: getchar_def)
  qed (simp add: getchar_def)
qed

declare prompt_loop.simps [simp del]

section \<open>prompt\<close>

datatype prompt_error = Edit edit_error | Parse parse_error

record prompt_result =
  code :: return_codes
  parsed :: "command_t option"
  final :: editor
  unread :: "char list"

definition prompt_start :: "char list \<Rightarrow> cstring \<Rightarrow> editor \<Rightarrow> editor" where
  "prompt_start stack ps e =
     e\<lparr>raw_mode := True, screen := screen e @ ps, buf := stack[0 := nul], index := 0\<rparr>"

definition prompt_finish :: "editor \<Rightarrow> edit_error + editor" where
  "prompt_finish e =
     (let index1 = (if 0 < index e \<and> buf e ! (index e - 1) = newline then index e - 1 else index e)
      in if BUFSZ \<le> index1 then Inl BufferOverflow
         else Inr (e\<lparr>buf := (buf e)[index1 := nul], index := index1 + 1,
                     oldbuf := c_str ((buf e)[index1 := nul])\<rparr>))"

definition prompt ::
  "(nat \<Rightarrow> command_t) \<Rightarrow> char list \<Rightarrow> cstring \<Rightarrow> char list \<Rightarrow> editor \<Rightarrow> command_t \<Rightarrow>
     prompt_error + prompt_result" where
  "prompt junk stack ps input e command =
     (case prompt_loop input (prompt_start stack ps e) of
        (Faulted err, rest) \<Rightarrow> Inl (Edit err)
      | (Exited e1, rest) \<Rightarrow>
          Inr \<lparr>code = EXIT, parsed = None, final = e1, unread = rest\<rparr>
      | (Broke e1, rest) \<Rightarrow>
          (case prompt_finish e1 of
             Inl err \<Rightarrow> Inl (Edit err)
           | Inr e2 \<Rightarrow>
               (case parse_command junk (buf e2) command of
                  Inl err \<Rightarrow> Inl (Parse err)
                | Inr c \<Rightarrow>
                    Inr \<lparr>code = SUCCESS, parsed = Some c, final = e2\<lparr>raw_mode := raw_mode e\<rparr>,
                          unread = rest\<rparr>)))"

section \<open>The line a user means to type\<close>

definition plain_key :: "char \<Rightarrow> bool" where
  "plain_key c \<longleftrightarrow>
     c \<noteq> CHR 9 \<and> c \<noteq> CHR 127 \<and> \<not> is_ignored c \<and> c \<noteq> CHR 65 \<and> c \<noteq> newline \<and> c \<noteq> CHR 4"

definition simple_key :: "char \<Rightarrow> bool" where
  "simple_key c \<longleftrightarrow> c = CHR 127 \<or> is_ignored c \<or> plain_key c"

definition edit_key :: "char \<Rightarrow> cstring \<Rightarrow> cstring" where
  "edit_key c l = (if c = CHR 127 then butlast l else if is_ignored c then l else l @ [c])"

definition edit_keys :: "char list \<Rightarrow> cstring \<Rightarrow> cstring" where
  "edit_keys keys l = fold edit_key keys l"

definition line_of :: "editor \<Rightarrow> cstring" where
  "line_of e = take (index e) (buf e)"

lemma edit_keys_simps [simp]:
  "edit_keys [] l = l" "edit_keys (c # keys) l = edit_keys keys (edit_key c l)"
  by (simp_all add: edit_keys_def)

lemma edit_keys_append [simp]: "edit_keys (ks @ ks') l = edit_keys ks' (edit_keys ks l)"
  by (simp add: edit_keys_def)

lemma edit_keys_plain: "\<forall>c \<in> set keys. plain_key c \<Longrightarrow> edit_keys keys l = l @ keys"
  by (induction keys arbitrary: l) (auto simp: edit_key_def plain_key_def)

lemma length_edit_key: "length (edit_key c l) \<le> length l + 1"
  by (auto simp: edit_key_def)

lemma ignored_not_special:
  assumes "is_ignored c"
  shows "c \<noteq> CHR 9" and "c \<noteq> CHR 127" and "c \<noteq> CHR 65" and "c \<noteq> newline" and "c \<noteq> CHR 4"
  using assms by (auto simp: is_ignored_def)

lemma key_step_plain:
  assumes "plain_key c" and "index e < BUFSZ - 2"
  shows "key_step c e =
    Continue (e\<lparr>screen := screen e @ [c], buf := (buf e)[index e := c], index := index e + 1\<rparr>)"
  using assms by (simp add: key_step_def plain_key_def Let_def BUFSZ_def)

lemma key_step_backspace:
  "key_step (CHR 127) e =
     Continue (if 0 < index e then (prompt_backspace e)\<lparr>index := index e - 1\<rparr> else e)"
  by (simp add: key_step_def)

lemma key_step_ignored: "is_ignored c \<Longrightarrow> key_step c e = Continue e"
  by (simp add: key_step_def ignored_not_special)

lemma key_step_newline:
  assumes "index e < BUFSZ"
  shows "key_step newline e =
    Break (e\<lparr>screen := screen e @ [newline], buf := (buf e)[index e := newline],
      index := index e + 1\<rparr>)"
  using assms by (simp add: key_step_def is_ignored_def Let_def)

lemma key_step_ctrl_d:
  assumes "index e < BUFSZ - 2"
  shows "key_step (CHR 4) e =
    Return_exit (e\<lparr>screen := screen e @ [CHR 4], buf := (buf e)[index e := CHR 4],
      index := index e + 1\<rparr>)"
  using assms by (simp add: key_step_def is_ignored_def Let_def BUFSZ_def)

lemma key_step_up: "key_step (CHR 65) e = history_swap (erase_line e)"
  by (simp add: key_step_def is_ignored_def)

lemma erase_line_eq:
  "erase_line e =
     e\<lparr>screen := screen e @ concat (replicate (index e) [CHR 8, CHR '' '', CHR 8]), index := 0\<rparr>"
proof (induction e rule: erase_line.induct)
  case (1 e)
  show ?case
  proof (cases "0 < index e")
    case True
    then obtain n where n: "index e = Suc n"
      by (cases "index e") auto
    from True 1 n show ?thesis
      by (subst erase_line.simps) (simp add: prompt_backspace_def)
  next
    case False
    then show ?thesis
      by (subst erase_line.simps) simp
  qed
qed

lemma line_of_write:
  assumes "index e < length (buf e)"
  shows "line_of (e\<lparr>screen := s, buf := (buf e)[index e := c], index := Suc (index e)\<rparr>) =
    line_of e @ [c]"
  using assms by (simp add: line_of_def take_Suc_conv_app_nth)

lemma line_of_backspace:
  assumes "index e \<le> length (buf e)"
  shows "line_of ((prompt_backspace e)\<lparr>index := index e - 1\<rparr>) = butlast (line_of e)"
  using assms by (simp add: line_of_def prompt_backspace_def butlast_take)

lemma key_step_simple:
  assumes "simple_key c" and "length (buf e) = BUFSZ" and "index e < BUFSZ - 2"
  shows "\<exists>e'. key_step c e = Continue e' \<and> line_of e' = edit_key c (line_of e) \<and>
    length (buf e') = BUFSZ \<and> index e' \<le> index e + 1 \<and> oldbuf e' = oldbuf e \<and>
    raw_mode e' = raw_mode e"
proof -
  from assms(2,3) have i: "index e < length (buf e)"
    by (simp add: BUFSZ_def)
  from assms(1) consider "c = CHR 127" | "is_ignored c" | "plain_key c"
    by (auto simp: simple_key_def)
  then show ?thesis
  proof cases
    case 1
    with i assms(2) line_of_backspace [of e] show ?thesis
      by (cases "0 < index e")
        (auto simp: key_step_backspace edit_key_def prompt_backspace_def line_of_def)
  next
    case 2
    with assms(2) show ?thesis
      by (simp add: key_step_ignored edit_key_def ignored_not_special)
  next
    case 3
    with i assms(2,3) show ?thesis
      by (simp add: key_step_plain line_of_write edit_key_def plain_key_def)
  qed
qed

lemma prompt_loop_Continue:
  "key_step c e = Continue e' \<Longrightarrow> prompt_loop (c # rest) e = prompt_loop rest e'"
  by (subst prompt_loop.simps) (simp add: getchar_def)

lemma prompt_loop_Break:
  "key_step c e = Break e' \<Longrightarrow> prompt_loop (c # rest) e = (Broke e', rest)"
  by (subst prompt_loop.simps) (simp add: getchar_def)

lemma prompt_loop_Return_exit:
  "key_step c e = Return_exit e' \<Longrightarrow> prompt_loop (c # rest) e = (Exited e', rest)"
  by (subst prompt_loop.simps) (simp add: getchar_def)

lemma prompt_loop_simple:
  assumes "\<forall>c \<in> set keys. simple_key c" and "length (buf e) = BUFSZ"
    and "index e + length keys < BUFSZ - 1"
  shows "\<exists>e'. prompt_loop (keys @ rest) e = prompt_loop rest e' \<and>
    line_of e' = edit_keys keys (line_of e) \<and> length (buf e') = BUFSZ \<and>
    index e' \<le> index e + length keys \<and> oldbuf e' = oldbuf e \<and> raw_mode e' = raw_mode e"
  using assms
proof (induction keys arbitrary: e)
  case Nil
  then show ?case
    by (intro exI [of _ e]) simp
next
  case (Cons c keys)
  from Cons.prems have "simple_key c" and "index e < BUFSZ - 2"
    by simp_all
  from key_step_simple [OF this(1) Cons.prems(2) this(2)]
  obtain e1 where e1: "key_step c e = Continue e1" "line_of e1 = edit_key c (line_of e)"
    "length (buf e1) = BUFSZ" "index e1 \<le> index e + 1" "oldbuf e1 = oldbuf e"
    "raw_mode e1 = raw_mode e"
    by blast
  from Cons.prems e1(4) have "\<forall>c \<in> set keys. simple_key c" and "index e1 + length keys < BUFSZ - 1"
    by simp_all
  from Cons.IH [OF this(1) e1(3) this(2)] e1 show ?case
    by (auto simp: prompt_loop_Continue)
qed

section \<open>Finishing a line\<close>

lemma c_str_append_nul_any [simp]: "c_str (s @ nul # rest) = c_str s"
  by (induction s) (simp_all add: c_str_def)

lemma c_str_update_nul: "i < length b \<Longrightarrow> c_str (b[i := nul]) = c_str (take i b)"
  by (simp add: upd_conv_take_nth_drop)

lemma parse_command_c_str: "parse_command junk (c_str b) command = parse_command junk b command"
  by (simp add: parse_command_spec split: option.split)

lemma prompt_finish_newline:
  assumes "index e < BUFSZ" and "length (buf e) = BUFSZ"
  shows "prompt_finish (e\<lparr>screen := s, buf := (buf e)[index e := newline], index := Suc (index e)\<rparr>) =
    Inr (e\<lparr>screen := s, buf := (buf e)[index e := nul], index := Suc (index e),
      oldbuf := c_str (line_of e)\<rparr>)"
  using assms by (simp add: prompt_finish_def Let_def c_str_update_nul line_of_def)

lemma prompt_finish_overflow:
  assumes "index e = BUFSZ + 1" and "buf e ! BUFSZ \<noteq> newline"
  shows "prompt_finish e = Inl BufferOverflow"
  using assms by (simp add: prompt_finish_def Let_def)

lemma prompt_start_simps [simp]:
  "index (prompt_start stack ps e) = 0" "buf (prompt_start stack ps e) = stack[0 := nul]"
  "oldbuf (prompt_start stack ps e) = oldbuf e" "raw_mode (prompt_start stack ps e)"
  "line_of (prompt_start stack ps e) = []"
  by (simp_all add: prompt_start_def line_of_def)

lemma prompt_line_cases:
  assumes "\<forall>k \<in> set keys. simple_key k" and "length keys < BUFSZ - 1"
    and "length stack = BUFSZ"
  shows "\<exists>e'. oldbuf e' = c_str (edit_keys keys []) \<and> raw_mode e' = raw_mode e \<and>
    prompt junk stack ps (keys @ newline # rest) e command =
      (case parse_command junk (edit_keys keys []) command of
         Inl err \<Rightarrow> Inl (Parse err)
       | Inr c \<Rightarrow> Inr \<lparr>code = SUCCESS, parsed = Some c, final = e', unread = rest\<rparr>)"
proof -
  let ?e0 = "prompt_start stack ps e"
  from assms(2,3) have "length (buf ?e0) = BUFSZ" and "index ?e0 + length keys < BUFSZ - 1"
    by simp_all
  from prompt_loop_simple [OF assms(1) this, of "newline # rest"]
  obtain e1 where e1: "prompt_loop (keys @ newline # rest) ?e0 = prompt_loop (newline # rest) e1"
    "line_of e1 = edit_keys keys []" "length (buf e1) = BUFSZ" "index e1 \<le> length keys"
    by auto
  from e1(4) assms(2) have i: "index e1 < BUFSZ"
    by simp
  let ?e2 = "e1\<lparr>screen := screen e1 @ [newline], buf := (buf e1)[index e1 := newline],
    index := index e1 + 1\<rparr>"
  have l: "prompt_loop (keys @ newline # rest) ?e0 = (Broke ?e2, rest)"
    unfolding e1(1) by (rule prompt_loop_Break) (rule key_step_newline [OF i])
  have p: "parse_command junk ((buf e1)[index e1 := nul]) command =
      parse_command junk (edit_keys keys []) command"
    using parse_command_c_str [of junk "(buf e1)[index e1 := nul]" command] i e1(2,3)
      parse_command_c_str [of junk "edit_keys keys []" command]
    by (simp add: c_str_update_nul line_of_def)
  let ?e' = "e1\<lparr>screen := screen e1 @ [newline], buf := (buf e1)[index e1 := nul],
    index := Suc (index e1), oldbuf := c_str (line_of e1), raw_mode := raw_mode e\<rparr>"
  have "prompt junk stack ps (keys @ newline # rest) e command =
      (case parse_command junk (edit_keys keys []) command of
         Inl err \<Rightarrow> Inl (Parse err)
       | Inr c \<Rightarrow> Inr \<lparr>code = SUCCESS, parsed = Some c, final = ?e', unread = rest\<rparr>)"
    by (simp add: prompt_def l prompt_finish_newline [OF i e1(3)] p split: sum.splits)
  moreover have "oldbuf ?e' = c_str (edit_keys keys [])" and "raw_mode ?e' = raw_mode e"
    by (simp_all add: e1(2))
  ultimately show ?thesis
    by blast
qed

lemma prompt_line:
  assumes "\<forall>k \<in> set keys. simple_key k" and "length keys < BUFSZ - 1"
    and "length stack = BUFSZ"
    and "parse_command junk (edit_keys keys []) command = Inr c"
  shows "\<exists>r. prompt junk stack ps (keys @ newline # rest) e command = Inr r \<and>
    code r = SUCCESS \<and> parsed r = Some c \<and> unread r = rest \<and>
    oldbuf (final r) = c_str (edit_keys keys []) \<and> raw_mode (final r) = raw_mode e"
proof -
  let ?e0 = "prompt_start stack ps e"
  from assms(2,3) have "length (buf ?e0) = BUFSZ" and "index ?e0 + length keys < BUFSZ - 1"
    by simp_all
  from prompt_loop_simple [OF assms(1) this, of "newline # rest"]
  obtain e1 where e1: "prompt_loop (keys @ newline # rest) ?e0 = prompt_loop (newline # rest) e1"
    "line_of e1 = edit_keys keys []" "length (buf e1) = BUFSZ" "index e1 \<le> length keys"
    by auto
  from e1(4) assms(2) have i: "index e1 < BUFSZ"
    by simp
  let ?e2 = "e1\<lparr>screen := screen e1 @ [newline], buf := (buf e1)[index e1 := newline],
    index := index e1 + 1\<rparr>"
  have l: "prompt_loop (keys @ newline # rest) ?e0 = (Broke ?e2, rest)"
    unfolding e1(1) by (rule prompt_loop_Break) (rule key_step_newline [OF i])
  have p: "parse_command junk ((buf e1)[index e1 := nul]) command = Inr c"
    using parse_command_c_str [of junk "(buf e1)[index e1 := nul]" command] i e1(2,3) assms(4)
      parse_command_c_str [of junk "edit_keys keys []" command]
    by (simp add: c_str_update_nul line_of_def)
  show ?thesis
    by (simp add: prompt_def l prompt_finish_newline [OF i e1(3)] p e1(2))
qed

text \<open>
  C3. A line typed and ended with Enter is the line that is parsed and remembered: for
  keys that are ordinary characters, backspaces and discarded bytes, fewer than the
  buffer holds, \<open>prompt\<close> returns \<open>SUCCESS\<close> with the command parsed from the
  edited line, stores that line in the history slot, restores the terminal mode it
  found, and leaves the keys after Enter unread, whatever the stack array held.
\<close>

theorem prompt_returns_line:
  assumes "\<forall>k \<in> set keys. simple_key k" and "length keys < BUFSZ - 1"
    and "length stack = BUFSZ"
    and "parse_command junk (edit_keys keys []) command = Inr c"
  shows "\<exists>r. prompt junk stack ps (keys @ newline # rest) e command = Inr r \<and>
    code r = SUCCESS \<and> parsed r = Some c \<and> unread r = rest \<and>
    oldbuf (final r) = c_str (edit_keys keys []) \<and> raw_mode (final r) = raw_mode e"
  using assms by (rule prompt_line)

theorem prompt_returns_line_witness:
  "(\<exists>r. prompt (\<lambda>_. zero_command) (replicate 4096 CHR ''x'') ''$ ''
       (''lz'' @ [CHR 127] @ ''s -l'' @ [newline] @ ''pwd'')
       \<lparr>buf = [], index = 0, oldbuf = [], raw_mode = False, screen = []\<rparr> zero_command = Inr r \<and>
     code r = SUCCESS \<and> unread r = ''pwd'' \<and> oldbuf (final r) = ''ls -l'' \<and>
     \<not> raw_mode (final r) \<and>
     parsed r = Some (Command \<lparr>name = ''ls'', background = False, auto_complete = False,
       arg_count = 3, args = [Some ''ls'', Some ''-l'', None], redirects = [Null, Null, Null]\<rparr> Null))"
proof -
  let ?keys = "''lz'' @ [CHR 127] @ ''s -l''"
  have k: "\<forall>k \<in> set ?keys. simple_key k"
    by (simp add: simple_key_def plain_key_def is_ignored_def)
  have n: "length ?keys < BUFSZ - 1" "length (replicate 4096 CHR ''x'') = BUFSZ"
    by (simp_all add: BUFSZ_def)
  have ed: "edit_keys ?keys [] = ''ls -l''"
    by (simp add: edit_key_def is_ignored_def)
  have p: "parse_command (\<lambda>_. zero_command) (edit_keys ?keys []) zero_command =
      Inr (Command \<lparr>name = ''ls'', background = False, auto_complete = False,
       arg_count = 3, args = [Some ''ls'', Some ''-l'', None], redirects = [Null, Null, Null]\<rparr> Null)"
    unfolding ed by code_simp
  from prompt_returns_line [OF k n p, of "''$ ''" "''pwd''"
      "\<lparr>buf = [], index = 0, oldbuf = [], raw_mode = False, screen = []\<rparr>"]
  show ?thesis
    unfolding ed by auto
qed

section \<open>Ctrl-D, history recall and the end of the input\<close>

lemma prompt_eot:
  assumes "\<forall>k \<in> set keys. simple_key k" and "length keys < BUFSZ - 2"
    and "length stack = BUFSZ"
  shows "\<exists>r. prompt junk stack ps (keys @ CHR 4 # rest) e command = Inr r \<and>
    code r = EXIT \<and> parsed r = None \<and> unread r = rest \<and>
    oldbuf (final r) = oldbuf e \<and> raw_mode (final r)"
proof -
  let ?e0 = "prompt_start stack ps e"
  from assms(2,3) have "length (buf ?e0) = BUFSZ" and "index ?e0 + length keys < BUFSZ - 1"
    by simp_all
  from prompt_loop_simple [OF assms(1) this, of "CHR 4 # rest"]
  obtain e1 where e1: "prompt_loop (keys @ CHR 4 # rest) ?e0 = prompt_loop (CHR 4 # rest) e1"
    "index e1 \<le> length keys" "oldbuf e1 = oldbuf e" "raw_mode e1"
    by auto
  from e1(2) assms(2) have i: "index e1 < BUFSZ - 2"
    by simp
  have "prompt_loop (keys @ CHR 4 # rest) ?e0 =
      (Exited (e1\<lparr>screen := screen e1 @ [CHR 4], buf := (buf e1)[index e1 := CHR 4],
        index := index e1 + 1\<rparr>), rest)"
    unfolding e1(1) by (rule prompt_loop_Return_exit) (rule key_step_ctrl_d [OF i])
  with e1(3,4) show ?thesis
    by (simp add: prompt_def)
qed

text \<open>
  C31. Ctrl-D ends the shell with the terminal still in raw mode: after any ordinary
  keys, the byte 4 makes \<open>prompt\<close> return \<open>EXIT\<close> from inside the loop, before
  the statement that restores the terminal settings; nothing is parsed, the history slot
  is unchanged and the terminal stays without echo and line buffering.
\<close>

theorem prompt_ctrl_d:
  assumes "\<forall>k \<in> set keys. simple_key k" and "length keys < BUFSZ - 2"
    and "length stack = BUFSZ"
  shows "\<exists>r. prompt junk stack ps (keys @ CHR 4 # rest) e command = Inr r \<and>
    code r = EXIT \<and> parsed r = None \<and> unread r = rest \<and>
    oldbuf (final r) = oldbuf e \<and> raw_mode (final r)"
  using assms by (rule prompt_eot)

theorem prompt_ctrl_d_witness:
  "(\<exists>r. prompt (\<lambda>_. zero_command) (replicate 4096 nul) ''$ '' (''ls'' @ [CHR 4])
       \<lparr>buf = [], index = 0, oldbuf = ''pwd'', raw_mode = False, screen = []\<rparr> zero_command = Inr r \<and>
     code r = EXIT \<and> raw_mode (final r) \<and> oldbuf (final r) = ''pwd'')"
proof -
  have k: "\<forall>k \<in> set ''ls''. simple_key k"
    by (simp add: simple_key_def plain_key_def is_ignored_def)
  have n: "length ''ls'' < BUFSZ - 2" "length (replicate 4096 nul) = BUFSZ"
    by (simp_all add: BUFSZ_def)
  from prompt_ctrl_d [OF k n, of "\<lambda>_. zero_command" "''$ ''" "[]"
      "\<lparr>buf = [], index = 0, oldbuf = ''pwd'', raw_mode = False, screen = []\<rparr>" zero_command]
  show ?thesis
    by auto
qed

lemma length_strcpy: "length src < length dst \<Longrightarrow> length (strcpy dst src) = length dst"
  by (simp add: strcpy_def)

lemma take_strcpy [simp]: "take (length src) (strcpy dst src) = src"
  by (simp add: strcpy_def)

lemma key_step_up_start:
  assumes "index e = 0" and "length (buf e) = BUFSZ" and "buf e ! 0 = nul"
    and "length (oldbuf e) < BUFSZ"
  shows "key_step (CHR 65) e =
    Continue (e\<lparr>screen := screen e @ oldbuf e, buf := strcpy (buf e) (oldbuf e),
      oldbuf := [], index := length (oldbuf e)\<rparr>)"
proof -
  from assms(2,3) have b: "buf e = nul # tl (buf e)"
    by (cases "buf e") (simp_all add: BUFSZ_def)
  then have "nul \<in> set (buf e)" and "c_str (buf e) = []"
    by (metis list.set_intros(1), metis c_str_append_nul_any [of "[]"] c_str_def append_Nil takeWhile.simps(1))
  with assms(1,4) show ?thesis
    by (simp add: key_step_up erase_line_eq history_swap_def strlen_def)
qed

text \<open>
  C28. The up arrow at the start of a prompt recalls the last line: followed by Enter,
  it makes \<open>prompt\<close> parse the line in the history slot again and leaves the slot as
  it was.
\<close>

theorem prompt_recall:
  assumes "length (oldbuf e) < BUFSZ - 1" and "length stack = BUFSZ"
    and "nul \<notin> set (oldbuf e)"
    and "parse_command junk (oldbuf e) command = Inr c"
  shows "\<exists>r. prompt junk stack ps (CHR 65 # newline # rest) e command = Inr r \<and>
    code r = SUCCESS \<and> parsed r = Some c \<and> unread r = rest \<and>
    oldbuf (final r) = oldbuf e"
proof -
  let ?e0 = "prompt_start stack ps e"
  let ?e1 = "?e0\<lparr>screen := screen ?e0 @ oldbuf e, buf := strcpy (stack[0 := nul]) (oldbuf e),
      oldbuf := [], index := length (oldbuf e)\<rparr>"
  from assms(1,2) have s: "key_step (CHR 65) ?e0 = Continue ?e1"
    using key_step_up_start [of ?e0] by (simp add: BUFSZ_def)
  from assms(1,2) have l: "length (buf ?e1) = BUFSZ" and i: "index ?e1 < BUFSZ"
    by (simp_all add: length_strcpy BUFSZ_def)
  have ln: "line_of ?e1 = oldbuf e"
    by (simp add: line_of_def)
  let ?e2 = "?e1\<lparr>screen := screen ?e1 @ [newline], buf := (buf ?e1)[index ?e1 := newline],
      index := index ?e1 + 1\<rparr>"
  have "prompt_loop (CHR 65 # newline # rest) ?e0 = (Broke ?e2, rest)"
    unfolding prompt_loop_Continue [OF s]
    by (rule prompt_loop_Break) (rule key_step_newline [OF i])
  moreover have "parse_command junk ((buf ?e1)[index ?e1 := nul]) command = Inr c"
    using parse_command_c_str [of junk "(buf ?e1)[index ?e1 := nul]" command] i l ln assms(3,4)
    by (simp add: c_str_update_nul line_of_def)
  ultimately show ?thesis
    using prompt_finish_newline [OF i l, of "screen ?e1 @ [newline]"] assms(3)
    by (simp add: prompt_def ln)
qed

theorem prompt_recall_witness:
  "(\<exists>r. prompt (\<lambda>_. zero_command) (replicate 4096 CHR ''x'') ''$ '' [CHR 65, newline]
       \<lparr>buf = [], index = 0, oldbuf = ''exit'', raw_mode = False, screen = []\<rparr> zero_command = Inr r \<and>
     code r = SUCCESS \<and> oldbuf (final r) = ''exit'' \<and>
     parsed r = Some (Command \<lparr>name = ''exit'', background = False, auto_complete = False,
       arg_count = 2, args = [Some ''exit'', None], redirects = [Null, Null, Null]\<rparr> Null))"
proof -
  let ?e = "\<lparr>buf = [], index = 0, oldbuf = ''exit'', raw_mode = False, screen = []\<rparr>"
  have n: "length (oldbuf ?e) < BUFSZ - 1" "length (replicate 4096 CHR ''x'') = BUFSZ"
    "nul \<notin> set (oldbuf ?e)"
    by (simp_all add: BUFSZ_def)
  have p: "parse_command (\<lambda>_. zero_command) (oldbuf ?e) zero_command =
      Inr (Command \<lparr>name = ''exit'', background = False, auto_complete = False,
       arg_count = 2, args = [Some ''exit'', None], redirects = [Null, Null, Null]\<rparr> Null)"
    by code_simp
  from prompt_recall [OF n p, of "''$ ''" "[]"] show ?thesis
    by auto
qed

text \<open>
  C30. History recall can run the write position past the array: when the history slot
  holds a line of 4095 characters (a line that filled the buffer), the up arrow sets the
  write position to 4095, the next ordinary key or Tab is stored in the last byte of the
  array, and the terminating NUL is then written one byte past its end.
\<close>

theorem prompt_recall_overflow:
  assumes "length (oldbuf e) = BUFSZ - 1" and "length stack = BUFSZ"
    and "plain_key k \<or> k = CHR 9"
  shows "prompt junk stack ps (CHR 65 # k # rest) e command = Inl (Edit BufferOverflow)"
proof -
  let ?e0 = "prompt_start stack ps e"
  let ?e1 = "?e0\<lparr>screen := screen ?e0 @ oldbuf e, buf := strcpy (stack[0 := nul]) (oldbuf e),
      oldbuf := [], index := length (oldbuf e)\<rparr>"
  from assms(1,2) have s: "key_step (CHR 65) ?e0 = Continue ?e1"
    using key_step_up_start [of ?e0] by (simp add: BUFSZ_def)
  from assms(1,2) have l: "length (buf ?e1) = BUFSZ" and i: "index ?e1 = BUFSZ - 1"
    by (simp_all add: length_strcpy BUFSZ_def)
  from assms(3) obtain e2 where e2: "key_step k ?e1 = Break e2" "index e2 = BUFSZ"
    "buf e2 ! (BUFSZ - 1) \<noteq> newline"
    using l i by (auto simp: key_step_def plain_key_def Let_def BUFSZ_def)
  then have "prompt_finish e2 = Inl BufferOverflow"
    by (simp add: prompt_finish_def Let_def BUFSZ_def)
  moreover have "prompt_loop (CHR 65 # k # rest) ?e0 = (Broke e2, rest)"
    unfolding prompt_loop_Continue [OF s] by (rule prompt_loop_Break) (rule e2(1))
  ultimately show ?thesis
    by (simp add: prompt_def)
qed

theorem prompt_recall_overflow_witness:
  "length (replicate 4095 CHR ''a'') = BUFSZ - 1 \<and> plain_key CHR ''b'' \<and>
   prompt (\<lambda>_. zero_command) (replicate 4096 nul) ''$ '' (CHR 65 # ''b'')
     \<lparr>buf = [], index = 0, oldbuf = replicate 4095 CHR ''a'', raw_mode = False, screen = []\<rparr>
     zero_command = Inl (Edit BufferOverflow)"
proof -
  let ?e = "\<lparr>buf = [], index = 0, oldbuf = replicate 4095 CHR ''a'', raw_mode = False, screen = []\<rparr>"
  have n: "length (oldbuf ?e) = BUFSZ - 1" "length (replicate 4096 nul) = BUFSZ"
    and k: "plain_key CHR ''b''"
    by (simp_all add: BUFSZ_def plain_key_def is_ignored_def)
  from prompt_recall_overflow [OF n disjI1 [OF k], of "\<lambda>_. zero_command" "''$ ''" "[]" zero_command] n k
  show ?thesis
    by simp
qed

lemma plain_key_eof [simp]: "plain_key (CHR 0xFF)"
  by (simp add: plain_key_def is_ignored_def)

lemma prompt_loop_eof_Continue:
  "key_step (CHR 0xFF) e = Continue e' \<Longrightarrow> prompt_loop [] e = prompt_loop [] e'"
  by (subst prompt_loop.simps) (simp add: getchar_def)

lemma prompt_loop_eof_Break:
  "key_step (CHR 0xFF) e = Break e' \<Longrightarrow> prompt_loop [] e = (Broke e', [])"
  by (subst prompt_loop.simps) (simp add: getchar_def)

lemma key_step_last_byte:
  assumes "plain_key k" and "index e = BUFSZ - 2"
  shows "key_step k e =
    Break (e\<lparr>screen := screen e @ [k], buf := (buf e)[index e := k], index := index e + 1\<rparr>)"
  using assms by (simp add: key_step_def plain_key_def Let_def BUFSZ_def)

lemma prompt_loop_eof:
  assumes "length (buf e) = BUFSZ" and "index e < BUFSZ - 1"
  shows "\<exists>e'. prompt_loop [] e = (Broke e', []) \<and> index e' = BUFSZ - 1 \<and>
    length (buf e') = BUFSZ \<and>
    line_of e' = line_of e @ replicate (BUFSZ - 1 - index e) (CHR 0xFF)"
  using assms
proof (induction "BUFSZ - 1 - index e" arbitrary: e)
  case 0
  then show ?case by simp
next
  case (Suc n)
  from Suc.prems have il: "index e < length (buf e)"
    by simp
  let ?e1 = "e\<lparr>screen := screen e @ [CHR 0xFF], buf := (buf e)[index e := CHR 0xFF],
    index := Suc (index e)\<rparr>"
  have ln: "line_of ?e1 = line_of e @ [CHR 0xFF]"
    by (rule line_of_write [OF il])
  show ?case
  proof (cases "index e = BUFSZ - 2")
    case True
    with Suc.hyps(2) have "BUFSZ - 1 - index e = 1"
      by (simp add: BUFSZ_def)
    with key_step_last_byte [OF plain_key_eof True] True Suc.prems(1) ln show ?thesis
      by (simp add: prompt_loop_eof_Break BUFSZ_def)
  next
    case False
    with Suc.prems(2) have i: "index e < BUFSZ - 2"
      by simp
    from Suc.hyps(2) have n: "n = BUFSZ - 1 - index ?e1"
      by simp
    from i Suc.prems(1) have "length (buf ?e1) = BUFSZ" and "index ?e1 < BUFSZ - 1"
      by simp_all
    from Suc.hyps(1) [OF n this] obtain e' where "prompt_loop [] ?e1 = (Broke e', [])"
      and "index e' = BUFSZ - 1" and "length (buf e') = BUFSZ"
      and "line_of e' = line_of ?e1 @ replicate (BUFSZ - 1 - index ?e1) (CHR 0xFF)"
      by blast
    moreover from i have "BUFSZ - 1 - index e = Suc (BUFSZ - 1 - index ?e1)"
      by simp
    ultimately show ?thesis
      using key_step_plain [OF plain_key_eof i] ln
      by (simp add: prompt_loop_eof_Continue replicate_append_same)
  qed
qed

lemma prompt_eof_parsed:
  assumes "length stack = BUFSZ"
  shows "\<exists>r. prompt junk stack ps [] e command = Inr r \<and> code r = SUCCESS \<and>
    parsed r = Some (spec_command junk [replicate (BUFSZ - 1) (CHR 0xFF)] command) \<and>
    unread r = [] \<and> oldbuf (final r) = replicate (BUFSZ - 1) (CHR 0xFF)"
proof -
  let ?e0 = "prompt_start stack ps e"
  let ?w = "replicate (BUFSZ - 1) (CHR 0xFF)"
  from assms have "length (buf ?e0) = BUFSZ" and "index ?e0 < BUFSZ - 1"
    by (simp_all add: BUFSZ_def)
  from prompt_loop_eof [OF this] obtain e1 where e1: "prompt_loop [] ?e0 = (Broke e1, [])"
    "index e1 = BUFSZ - 1" "length (buf e1) = BUFSZ" "line_of e1 = ?w"
    by auto
  have "line_of e1 ! (BUFSZ - 2) = buf e1 ! (BUFSZ - 2)"
    unfolding line_of_def e1(2) by (rule nth_take) (simp add: BUFSZ_def)
  moreover have "line_of e1 ! (BUFSZ - 2) = CHR 0xFF"
    unfolding e1(4) by (simp add: BUFSZ_def)
  ultimately have "buf e1 ! (BUFSZ - 2) = CHR 0xFF"
    by (rule trans [OF sym])
  with e1(2) have nl: "buf e1 ! (index e1 - 1) \<noteq> newline"
    by (simp add: BUFSZ_def)
  have w: "?w \<noteq> []" "set ?w \<inter> set splitters = {}" "nul \<notin> set ?w"
    by (auto simp: BUFSZ_def splitter_iff)
  from e1(2,3) have c: "c_str ((buf e1)[index e1 := nul]) = ?w"
    using e1(4) w(3) by (simp add: c_str_update_nul line_of_def BUFSZ_def)
  have f: "prompt_finish e1 = Inr (e1\<lparr>buf := (buf e1)[index e1 := nul], index := index e1 + 1,
      oldbuf := ?w\<rparr>)"
    using nl e1(2) c by (simp add: prompt_finish_def Let_def BUFSZ_def)
  have t: "line_tokens ?w = [?w]"
    by (rule tokens_last_word [OF w(1,2)])
  have "parse_command junk ((buf e1)[index e1 := nul]) command =
      Inr (spec_command junk [?w] command)"
    unfolding parse_command_spec c t by simp
  thus ?thesis
    by (simp add: prompt_def e1(1) f)
qed

lemma prompt_eof:
  assumes "length stack = BUFSZ"
  shows "\<exists>r c. prompt junk stack ps [] e command = Inr r \<and> code r = SUCCESS \<and>
    parsed r = Some c \<and> name (command_t.fields c) = replicate (BUFSZ - 1) (CHR 0xFF) \<and>
    oldbuf (final r) = replicate (BUFSZ - 1) (CHR 0xFF)"
  using prompt_eof_parsed [OF assms, of junk ps e command]
  by (auto simp: fields_spec_command)

text \<open>
  The end of the input does not end the shell: \<open>getchar\<close> then returns \<open>EOF\<close>
  for ever, the editor stores it as the byte 255 until the buffer is full, and
  \<open>prompt\<close> returns \<open>SUCCESS\<close> with a command whose name is 4095 bytes of 255; the
  same line fills the history slot.
\<close>

theorem prompt_end_of_input:
  assumes "length stack = BUFSZ"
  shows "\<exists>r c. prompt junk stack ps [] e command = Inr r \<and> code r = SUCCESS \<and>
    parsed r = Some c \<and> name (command_t.fields c) = replicate (BUFSZ - 1) (CHR 0xFF) \<and>
    oldbuf (final r) = replicate (BUFSZ - 1) (CHR 0xFF)"
  using assms by (rule prompt_eof)

theorem prompt_end_of_input_witness:
  "length (replicate 4096 nul) = BUFSZ \<and>
   (\<exists>r. prompt (\<lambda>_. zero_command) (replicate 4096 nul) ''$ '' []
       \<lparr>buf = [], index = 0, oldbuf = [], raw_mode = False, screen = []\<rparr> zero_command = Inr r \<and>
     code r = SUCCESS \<and> length (oldbuf (final r)) = 4095)"
proof -
  have n: "length (replicate 4096 nul) = BUFSZ"
    by (simp add: BUFSZ_def)
  from prompt_end_of_input [OF n, of "\<lambda>_. zero_command" "''$ ''"
      "\<lparr>buf = [], index = 0, oldbuf = [], raw_mode = False, screen = []\<rparr>" zero_command] n
  show ?thesis
    by (auto simp: BUFSZ_def)
qed

section \<open>Tab\<close>

lemma key_step_tab:
  assumes "index e < BUFSZ"
  shows "key_step (CHR 9) e =
    Break (e\<lparr>buf := (buf e)[index e := CHR ''?''], index := index e + 1\<rparr>)"
  using assms by (simp add: key_step_def)

lemma prompt_finish_no_newline:
  assumes "index e < BUFSZ" and "length (buf e) = BUFSZ" and "0 < index e"
    and "buf e ! (index e - 1) \<noteq> newline"
  shows "prompt_finish e =
    Inr (e\<lparr>buf := (buf e)[index e := nul], index := Suc (index e), oldbuf := c_str (line_of e)\<rparr>)"
  using assms by (simp add: prompt_finish_def Let_def c_str_update_nul line_of_def)

text \<open>
  Tab ends the read with the autocomplete sentinel: after ordinary keys, Tab appends
  \<open>?\<close> to the line without echoing it, and \<open>prompt\<close> returns \<open>SUCCESS\<close> with
  the command parsed from the line and the sentinel, which is also what the history slot
  then holds.
\<close>

theorem prompt_tab:
  assumes "\<forall>k \<in> set keys. simple_key k" and "length keys < BUFSZ - 1"
    and "length stack = BUFSZ"
    and "parse_command junk (edit_keys keys [] @ ''?'') command = Inr c"
  shows "\<exists>r. prompt junk stack ps (keys @ CHR 9 # rest) e command = Inr r \<and>
    code r = SUCCESS \<and> parsed r = Some c \<and> unread r = rest \<and>
    oldbuf (final r) = c_str (edit_keys keys [] @ ''?'') \<and> raw_mode (final r) = raw_mode e"
proof -
  let ?e0 = "prompt_start stack ps e"
  from assms(2,3) have "length (buf ?e0) = BUFSZ" and "index ?e0 + length keys < BUFSZ - 1"
    by simp_all
  from prompt_loop_simple [OF assms(1) this, of "CHR 9 # rest"]
  obtain e1 where e1: "prompt_loop (keys @ CHR 9 # rest) ?e0 = prompt_loop (CHR 9 # rest) e1"
    "line_of e1 = edit_keys keys []" "length (buf e1) = BUFSZ" "index e1 \<le> length keys"
    by auto
  from e1(4) assms(2) have i: "index e1 < BUFSZ - 1"
    by simp
  let ?e2 = "e1\<lparr>buf := (buf e1)[index e1 := CHR ''?''], index := index e1 + 1\<rparr>"
  have l: "prompt_loop (keys @ CHR 9 # rest) ?e0 = (Broke ?e2, rest)"
    unfolding e1(1) using i by (intro prompt_loop_Break key_step_tab) simp
  from i e1(3) have il: "index e1 < length (buf e1)"
    by simp
  then have ln: "line_of ?e2 = edit_keys keys [] @ ''?''"
    using e1(2) by (simp add: line_of_def take_Suc_conv_app_nth)
  from i e1(3) il have f: "prompt_finish ?e2 = Inr (?e2\<lparr>buf := (buf ?e2)[index ?e2 := nul],
      index := Suc (index ?e2), oldbuf := c_str (line_of ?e2)\<rparr>)"
    by (intro prompt_finish_no_newline) simp_all
  have "c_str ((buf ?e2)[index ?e2 := nul]) = c_str (line_of ?e2)"
    using i e1(3) by (simp add: c_str_update_nul line_of_def)
  with assms(4) have p: "parse_command junk ((buf ?e2)[index ?e2 := nul]) command = Inr c"
    using parse_command_c_str [of junk "(buf ?e2)[index ?e2 := nul]" command]
      parse_command_c_str [of junk "edit_keys keys [] @ ''?''" command]
    by (simp only: ln)
  show ?thesis
    unfolding prompt_def l using f p ln by simp
qed

theorem prompt_tab_witness:
  "(\<exists>r. prompt (\<lambda>_. zero_command) (replicate 4096 CHR ''x'') ''$ '' (''gi'' @ [CHR 9])
       \<lparr>buf = [], index = 0, oldbuf = [], raw_mode = False, screen = []\<rparr> zero_command = Inr r \<and>
     code r = SUCCESS \<and> oldbuf (final r) = ''gi?'' \<and>
     parsed r = Some (Command \<lparr>name = ''gi?'', background = False, auto_complete = True,
       arg_count = 2, args = [Some ''gi?'', None], redirects = [Null, Null, Null]\<rparr> Null))"
proof -
  have k: "\<forall>k \<in> set ''gi''. simple_key k"
    by (simp add: simple_key_def plain_key_def is_ignored_def)
  have n: "length ''gi'' < BUFSZ - 1" "length (replicate 4096 CHR ''x'') = BUFSZ"
    by (simp_all add: BUFSZ_def)
  have ed: "edit_keys ''gi'' [] @ ''?'' = ''gi?''"
    by (simp add: edit_key_def is_ignored_def)
  have p: "parse_command (\<lambda>_. zero_command) (edit_keys ''gi'' [] @ ''?'') zero_command =
      Inr (Command \<lparr>name = ''gi?'', background = False, auto_complete = True,
       arg_count = 2, args = [Some ''gi?'', None], redirects = [Null, Null, Null]\<rparr> Null)"
    unfolding ed by code_simp
  from prompt_tab [OF k n p, of "''$ ''" "[]"
      "\<lparr>buf = [], index = 0, oldbuf = [], raw_mode = False, screen = []\<rparr>"]
  show ?thesis
    unfolding ed by auto
qed

section \<open>The invariant of the editor\<close>

definition editor_ok :: "editor \<Rightarrow> bool" where
  "editor_ok e \<longleftrightarrow> length (buf e) = BUFSZ \<and> length (oldbuf e) < BUFSZ \<and> nul \<notin> set (oldbuf e)"

definition step_editor :: "step_result \<Rightarrow> editor option" where
  "step_editor r =
     (case r of Continue e \<Rightarrow> Some e | Break e \<Rightarrow> Some e | Return_exit e \<Rightarrow> Some e | Fault err \<Rightarrow> None)"

definition end_editor :: "loop_end \<Rightarrow> editor option" where
  "end_editor r = (case r of Broke e \<Rightarrow> Some e | Exited e \<Rightarrow> Some e | Faulted err \<Rightarrow> None)"

lemma editor_ok_erase_line [simp]: "editor_ok (erase_line e) = editor_ok e"
  by (simp add: erase_line_eq editor_ok_def)

lemma history_swap_ok:
  assumes "editor_ok e" and "step_editor (history_swap e) = Some e'"
  shows "editor_ok e'"
  using assms length_c_str_less [of "buf e"]
  by (auto simp: history_swap_def step_editor_def editor_ok_def strcpy_def split: if_splits)

lemma history_swap_fits: "editor_ok e \<Longrightarrow> history_swap e \<noteq> Fault BufferOverflow"
  by (simp add: history_swap_def editor_ok_def)

lemma key_step_ok:
  assumes "editor_ok e" and "step_editor (key_step c e) = Some e'"
  shows "editor_ok e'"
proof (cases "c = CHR 65")
  case True
  with assms show ?thesis
    by (auto simp: key_step_up intro: history_swap_ok [of "erase_line e"])
next
  case False
  with assms show ?thesis
    by (auto simp: key_step_def step_editor_def editor_ok_def prompt_backspace_def Let_def
        split: if_splits)
qed

lemma prompt_loop_ok:
  assumes "editor_ok e" and "end_editor (fst (prompt_loop input e)) = Some e'"
  shows "editor_ok e'"
  using assms
proof (induction input e rule: prompt_loop.induct)
  case (1 input e)
  show ?case
  proof (cases "key_step (fst (getchar input)) e")
    case (Continue e1)
    with key_step_ok [OF "1.prems"(1), of "fst (getchar input)" e1] have "editor_ok e1"
      by (simp add: step_editor_def)
    from "1.IH" [OF Continue this] "1.prems"(2) Continue show ?thesis
      by (subst (asm) prompt_loop.simps) simp
  next
    case (Break e1)
    hence "prompt_loop input e = (Broke e1, snd (getchar input))"
      by (subst prompt_loop.simps) simp
    with "1.prems" key_step_ok [of e "fst (getchar input)" e1] Break show ?thesis
      by (simp add: step_editor_def end_editor_def)
  next
    case (Return_exit e1)
    hence "prompt_loop input e = (Exited e1, snd (getchar input))"
      by (subst prompt_loop.simps) simp
    with "1.prems" key_step_ok [of e "fst (getchar input)" e1] Return_exit show ?thesis
      by (simp add: step_editor_def end_editor_def)
  next
    case (Fault err)
    hence "prompt_loop input e = (Faulted err, snd (getchar input))"
      by (subst prompt_loop.simps) simp
    with "1.prems" show ?thesis
      by (simp add: end_editor_def)
  qed
qed

lemma prompt_finish_ok:
  assumes "length (buf e) = BUFSZ" and "prompt_finish e = Inr e'"
  shows "editor_ok e'"
proof -
  have "length (c_str ((buf e)[i := nul])) < BUFSZ" if "i < BUFSZ" for i
    using that assms(1) length_c_str_less [of "(buf e)[i := nul]"] by (simp add: set_update_memI)
  with assms show ?thesis
    by (auto simp: prompt_finish_def editor_ok_def Let_def split: if_splits)
qed

lemma prompt_ok:
  assumes "length stack = BUFSZ" and "length (oldbuf e) < BUFSZ" and "nul \<notin> set (oldbuf e)"
    and "prompt junk stack ps input e command = Inr r"
  shows "editor_ok (final r)"
proof -
  from assms(1-3) have s: "editor_ok (prompt_start stack ps e)"
    by (simp add: editor_ok_def)
  obtain l rest where l: "prompt_loop input (prompt_start stack ps e) = (l, rest)"
    by (cases "prompt_loop input (prompt_start stack ps e)")
  show ?thesis
  proof (cases l)
    case (Broke e1)
    with prompt_loop_ok [OF s, of input e1] l have "length (buf e1) = BUFSZ"
      by (simp add: end_editor_def editor_ok_def)
    from prompt_finish_ok [OF this] assms(4) l Broke show ?thesis
      by (auto simp: prompt_def editor_ok_def split: sum.splits)
  next
    case (Exited e1)
    with prompt_loop_ok [OF s, of input e1] l assms(4) show ?thesis
      by (auto simp: prompt_def end_editor_def)
  next
    case (Faulted err)
    with l assms(4) show ?thesis
      by (simp add: prompt_def)
  qed
qed

section \<open>What the loop reads\<close>

lemma prompt_loop_unread: "suffix (snd (prompt_loop input e)) input"
proof (induction input e rule: prompt_loop.induct)
  case (1 input e)
  have g: "suffix (snd (getchar input)) input"
    by (cases input) (simp_all add: getchar_def suffix_Cons)
  show ?case
  proof (cases "key_step (fst (getchar input)) e")
    case (Continue e1)
    from suffix_order.trans [OF "1.IH" [OF Continue] g] Continue show ?thesis
      by (subst prompt_loop.simps) simp
  qed (use g in \<open>subst prompt_loop.simps, simp\<close>)+
qed

lemma prompt_loop_reads:
  assumes "input \<noteq> []"
  shows "length (snd (prompt_loop input e)) < length input"
proof -
  from assms obtain c rest where i: "input = c # rest"
    by (cases input) auto
  have "suffix (snd (prompt_loop input e)) rest"
  proof (cases "key_step c e")
    case (Continue e1)
    with prompt_loop_unread [of rest e1] i show ?thesis
      by (simp add: prompt_loop_Continue)
  qed (use i in \<open>subst prompt_loop.simps, simp add: getchar_def\<close>)+
  from suffix_length_le [OF this] i show ?thesis
    by simp
qed

lemma prompt_unread:
  assumes "prompt junk stack ps input e command = Inr r"
  shows "suffix (unread r) input"
  using assms prompt_loop_unread [of input "prompt_start stack ps e"]
  by (auto simp: prompt_def split: prod.splits loop_end.splits sum.splits)

lemma prompt_raw_mode:
  assumes "prompt junk stack ps input e command = Inr r" and "parsed r \<noteq> None"
  shows "raw_mode (final r) = raw_mode e" and "code r = SUCCESS"
  using assms by (auto simp: prompt_def split: prod.splits loop_end.splits sum.splits)

lemma prompt_reads:
  assumes "prompt junk stack ps input e command = Inr r" and "input \<noteq> []"
  shows "length (unread r) < length input"
  using assms prompt_loop_reads [of input "prompt_start stack ps e"]
  by (auto simp: prompt_def split: prod.splits loop_end.splits sum.splits)

text \<open>
  C21. \<open>prompt\<close> keeps the history slot a string that fits the buffer: when the static
  array \<open>oldbuf\<close> holds a string of fewer than 4096 characters, then after every call
  that returns, for every input, every content of the stack array and on both ways out of
  the loop, the buffer still has its 4096 bytes and \<open>oldbuf\<close> again holds a string of
  fewer than 4096 characters, so that the copy of \<open>oldbuf\<close> into the buffer on the up
  arrow never overflows it. The call reads a prefix of the input, and at least one byte of
  an input that is not empty.
\<close>

theorem prompt_keeps_editor:
  assumes "length stack = BUFSZ" and "length (oldbuf e) < BUFSZ" and "nul \<notin> set (oldbuf e)"
    and "prompt junk stack ps input e command = Inr r"
  shows "editor_ok (final r) \<and> history_swap (final r) \<noteq> Fault BufferOverflow \<and>
    suffix (unread r) input \<and> (input \<noteq> [] \<longrightarrow> length (unread r) < length input)"
  using prompt_ok [OF assms] history_swap_fits [of "final r"] prompt_unread [OF assms(4)]
    prompt_reads [OF assms(4)]
  by simp

theorem prompt_keeps_editor_witness:
  "\<exists>r. prompt (\<lambda>_. zero_command) (replicate 4096 CHR ''x'') ''$ '' (''ls'' @ [newline] @ ''pwd'')
       \<lparr>buf = [], index = 0, oldbuf = ''cd /tmp'', raw_mode = False, screen = []\<rparr>
       zero_command = Inr r \<and>
     editor_ok (final r) \<and> history_swap (final r) \<noteq> Fault BufferOverflow \<and>
     suffix (unread r) (''ls'' @ [newline] @ ''pwd'') \<and> length (unread r) < 6"
proof -
  let ?e = "\<lparr>buf = [], index = 0, oldbuf = ''cd /tmp'', raw_mode = False, screen = []\<rparr>"
  have k: "\<forall>k \<in> set ''ls''. simple_key k"
    by (simp add: simple_key_def plain_key_def is_ignored_def)
  have n: "length ''ls'' < BUFSZ - 1" "length (replicate 4096 CHR ''x'') = BUFSZ"
    by (simp_all add: BUFSZ_def)
  have "line_tokens ''ls'' = [''ls'']"
    by code_simp
  hence p: "parse_command (\<lambda>_. zero_command) (edit_keys ''ls'' []) zero_command =
      Inr (spec_command (\<lambda>_. zero_command) [''ls''] zero_command)"
    by (simp add: edit_key_def is_ignored_def parse_command_spec)
  from prompt_line [OF k n p, of "''$ ''" "''pwd''" ?e]
  obtain r where r: "prompt (\<lambda>_. zero_command) (replicate 4096 CHR ''x'') ''$ ''
      (''ls'' @ newline # ''pwd'') ?e zero_command = Inr r"
    by blast
  have h: "length (oldbuf ?e) < BUFSZ" "nul \<notin> set (oldbuf ?e)"
    by (simp_all add: BUFSZ_def)
  from prompt_keeps_editor [OF n(2) h r] r show ?thesis
    by (intro exI [of _ r]) simp
qed

section \<open>What the terminal shows\<close>

type_synonym terminal = "char list \<times> nat"

definition term_step :: "char \<Rightarrow> terminal \<Rightarrow> terminal" where
  "term_step c t =
     (case t of (l, k) \<Rightarrow>
        if c = CHR 8 then (l, k - 1)
        else if k < length l then (l[k := c], k + 1)
        else (l @ [c], k + 1))"

definition render :: "char list \<Rightarrow> terminal \<Rightarrow> terminal" where
  "render out t = fold term_step out t"

definition shown :: "terminal \<Rightarrow> char list" where
  "shown t = take (snd t) (fst t)"

definition shows_line :: "terminal \<Rightarrow> char list \<Rightarrow> editor \<Rightarrow> bool" where
  "shows_line t base e \<longleftrightarrow>
     snd t \<le> length (fst t) \<and> shown t = base @ line_of e \<and> index e \<le> length (buf e)"

lemma render_simps [simp]:
  "render [] t = t" "render (c # out) t = render out (term_step c t)"
  "render (out @ out') t = render out' (render out t)"
  by (simp_all add: render_def)

lemma shown_write:
  assumes "k \<le> length l" and "c \<noteq> CHR 8"
  shows "shown (term_step c (l, k)) = take k l @ [c]" and "snd (term_step c (l, k)) \<le> length (fst (term_step c (l, k)))"
  using assms by (auto simp: term_step_def shown_def take_Suc_conv_app_nth)

lemma shown_erase:
  assumes "k \<le> length l" and "0 < k"
  shows "shown (render [CHR 8, CHR '' '', CHR 8] (l, k)) = butlast (take k l)"
    and "snd (render [CHR 8, CHR '' '', CHR 8] (l, k)) \<le> length (fst (render [CHR 8, CHR '' '', CHR 8] (l, k)))"
  using assms by (auto simp: term_step_def shown_def butlast_take)

lemma render_plain:
  "CHR 8 \<notin> set out \<Longrightarrow> render out (l, length l) = (l @ out, length (l @ out))"
proof (induction out arbitrary: l)
  case (Cons c out)
  from Cons.IH [of "l @ [c]"] Cons.prems show ?case
    by (auto simp: term_step_def)
qed simp

lemma key_step_shown:
  assumes "simple_key c" and "c \<noteq> CHR 8" and "length (buf e) = BUFSZ"
    and "index e < BUFSZ - 2" and "shows_line t base e"
  shows "\<exists>e' out. key_step c e = Continue e' \<and> screen e' = screen e @ out \<and>
    shows_line (render out t) base e' \<and> line_of e' = edit_key c (line_of e) \<and>
    length (buf e') = BUFSZ \<and> index e' \<le> index e + 1"
proof -
  obtain l k where t: "t = (l, k)"
    by (cases t)
  from assms(5) t have k: "k \<le> length l" and s: "take k l = base @ line_of e"
    by (simp_all add: shows_line_def shown_def)
  from assms(3,4) have i: "index e < length (buf e)"
    by (simp add: BUFSZ_def)
  from assms(1) consider "c = CHR 127" "0 < index e" | "c = CHR 127" "index e = 0"
    | "is_ignored c" | "plain_key c"
    by (auto simp: simple_key_def)
  thus ?thesis
  proof cases
    case 1
    from 1(2) i have ne: "line_of e \<noteq> []"
      by (auto simp: line_of_def)
    with s have "0 < k"
      by (cases k) auto
    from shown_erase [OF k this] s ne 1 i assms(3) line_of_backspace [of e] show ?thesis
      unfolding t
      by (intro exI [of _ "(prompt_backspace e)\<lparr>index := index e - 1\<rparr>"]
          exI [of _ "[CHR 8, CHR '' '', CHR 8]"])
        (auto simp: key_step_backspace shows_line_def prompt_backspace_def edit_key_def
          butlast_append)
  next
    case 2
    with assms(3,5) show ?thesis
      by (intro exI [of _ e] exI [of _ "[]"])
        (simp add: key_step_backspace edit_key_def line_of_def)
  next
    case 3
    with assms(3,5) show ?thesis
      by (intro exI [of _ e] exI [of _ "[]"])
        (simp add: key_step_ignored edit_key_def ignored_not_special)
  next
    case 4
    from shown_write [OF k assms(2)] s 4 i assms(3,4) show ?thesis
      unfolding t
      by (intro exI [of _ "e\<lparr>screen := screen e @ [c], buf := (buf e)[index e := c],
            index := index e + 1\<rparr>"] exI [of _ "[c]"])
        (simp add: key_step_plain shows_line_def line_of_write edit_key_def plain_key_def)
  qed
qed

lemma prompt_loop_shown:
  assumes "\<forall>c \<in> set keys. simple_key c \<and> c \<noteq> CHR 8" and "length (buf e) = BUFSZ"
    and "index e + length keys < BUFSZ - 1" and "shows_line t base e"
  shows "\<exists>e' out. prompt_loop (keys @ rest) e = prompt_loop rest e' \<and>
    screen e' = screen e @ out \<and> shows_line (render out t) base e' \<and>
    line_of e' = edit_keys keys (line_of e)"
  using assms
proof (induction keys arbitrary: e t)
  case Nil
  thus ?case
    by (intro exI [of _ e] exI [of _ "[]"]) simp
next
  case (Cons c keys)
  from Cons.prems have "simple_key c" "c \<noteq> CHR 8" and "index e < BUFSZ - 2"
    by simp_all
  from key_step_shown [OF this(1,2) Cons.prems(2) this(3) Cons.prems(4)]
  obtain e1 out1 where e1: "key_step c e = Continue e1" "screen e1 = screen e @ out1"
    "shows_line (render out1 t) base e1" "line_of e1 = edit_key c (line_of e)"
    "length (buf e1) = BUFSZ" "index e1 \<le> index e + 1"
    by blast
  from Cons.prems e1(6) have "\<forall>c \<in> set keys. simple_key c \<and> c \<noteq> CHR 8"
    and "index e1 + length keys < BUFSZ - 1"
    by simp_all
  from Cons.IH [OF this(1) e1(5) this(2) e1(3)]
  obtain e' out where "prompt_loop (keys @ rest) e1 = prompt_loop rest e'"
    "screen e' = screen e1 @ out" "shows_line (render out (render out1 t)) base e'"
    "line_of e' = edit_keys keys (line_of e1)"
    by blast
  with e1 show ?case
    by (intro exI [of _ e'] exI [of _ "out1 @ out"]) (simp add: prompt_loop_Continue)
qed

text \<open>
  C29. While a line is typed the terminal shows it: after the prompt string, for keys that
  are ordinary characters other than the cursor-left byte, backspaces and discarded
  bytes, the bytes \<open>prompt\<close> has written leave the cursor behind the prompt string
  followed by the edited line. A backspace erases the last character on the screen, and
  does nothing on an empty line.
\<close>

theorem screen_shows_line:
  assumes "\<forall>c \<in> set keys. simple_key c \<and> c \<noteq> CHR 8" and "length keys < BUFSZ - 1"
    and "length stack = BUFSZ" and "CHR 8 \<notin> set ps"
  shows "\<exists>e' out. prompt_loop (keys @ rest) (prompt_start stack ps e) = prompt_loop rest e' \<and>
    screen e' = screen e @ ps @ out \<and>
    shown (render (ps @ out) ([], 0)) = ps @ edit_keys keys []"
proof -
  let ?e0 = "prompt_start stack ps e"
  from render_plain [OF assms(4), of "[]"] have r: "render ps ([], 0) = (ps, length ps)"
    by simp
  from assms(3) have s: "shows_line (ps, length ps) ps ?e0"
    by (simp add: shows_line_def shown_def)
  from assms(2,3) have "length (buf ?e0) = BUFSZ" "index ?e0 + length keys < BUFSZ - 1"
    by simp_all
  from prompt_loop_shown [OF assms(1) this s, of rest]
  obtain e' out where e': "prompt_loop (keys @ rest) ?e0 = prompt_loop rest e'"
    "screen e' = screen ?e0 @ out" "shows_line (render out (ps, length ps)) ps e'"
    "line_of e' = edit_keys keys []"
    by auto
  thus ?thesis
    by (intro exI [of _ e'] exI [of _ out]) (simp add: r shows_line_def prompt_start_def)
qed

theorem screen_shows_line_witness:
  "\<exists>e' out. prompt_loop (''lz'' @ [CHR 127] @ ''s'' @ [newline])
       (prompt_start (replicate 4096 CHR ''x'') ''$ ''
          \<lparr>buf = [], index = 0, oldbuf = [], raw_mode = False, screen = []\<rparr>) =
     prompt_loop [newline] e' \<and> screen e' = ''$ '' @ out \<and>
     shown (render (''$ '' @ out) ([], 0)) = ''$ ls''"
proof -
  have k: "\<forall>c \<in> set (''lz'' @ [CHR 127] @ ''s''). simple_key c \<and> c \<noteq> CHR 8"
    by (simp add: simple_key_def plain_key_def is_ignored_def)
  have n: "length (''lz'' @ [CHR 127] @ ''s'') < BUFSZ - 1" "length (replicate 4096 CHR ''x'') = BUFSZ"
    "CHR 8 \<notin> set ''$ ''"
    by (simp_all add: BUFSZ_def)
  from screen_shows_line [OF k n, of "[newline]"
      "\<lparr>buf = [], index = 0, oldbuf = [], raw_mode = False, screen = []\<rparr>"]
  show ?thesis
    by (simp add: edit_key_def is_ignored_def)
qed

end
