(* ===== verification/Numbers.thy ===== *)
theory Numbers
  imports CString
begin

text \<open>
  Numbers as the C library reads and prints them: \<open>isspace\<close> and \<open>isdigit\<close> in the C
  locale, \<open>strtol\<close> in base 10 with the end pointer it stores (the value is clamped to
  the range of \<open>long\<close>), the conversion of a \<open>long\<close> to \<open>int\<close> (\<open>to_int\<close>, the
  wrap-around of the compiler), \<open>atoi\<close>, and the text \<open>printf\<close> produces for \<open>%d\<close>
  (\<open>dec\<close>). The routines are modelled from their contract.

  The lemmas show that reading back what \<open>%d\<close> printed gives the number, that a string of
  at most \<open>k\<close> characters denotes a number below \<open>10 ^ k\<close>, and where the end pointer
  stands.
\<close>

section \<open>Character classes\<close>

definition whitespace :: cstring where
  "whitespace = [CHR '' '', tab, newline, CHR 0x0B, CHR 0x0C, CHR 0x0D]"

definition isspace :: "char \<Rightarrow> bool" where
  "isspace c \<longleftrightarrow> c \<in> set whitespace"

definition isdigit :: "char \<Rightarrow> bool" where
  "isdigit c \<longleftrightarrow> 48 \<le> (of_char c :: nat) \<and> (of_char c :: nat) \<le> 57"

section \<open>Reading: strtol and atoi\<close>

definition digit_of :: "char \<Rightarrow> nat" where
  "digit_of c = of_char c - 48"

definition digits_value :: "cstring \<Rightarrow> nat" where
  "digits_value ds = foldl (\<lambda>a c. 10 * a + digit_of c) 0 ds"

definition LONG_MAX :: int where
  "LONG_MAX = 2 ^ 63 - 1"

definition INT_MAX :: int where
  "INT_MAX = 2 ^ 31 - 1"

definition clamp_long :: "int \<Rightarrow> int" where
  "clamp_long v = (if LONG_MAX < v then LONG_MAX else if v < - LONG_MAX - 1 then - LONG_MAX - 1 else v)"

definition to_int :: "int \<Rightarrow> int" where
  "to_int v = (v + 2 ^ 31) mod 2 ^ 32 - 2 ^ 31"

definition sign_of :: "cstring \<Rightarrow> bool \<times> cstring" where
  "sign_of t =
     (case t of
        [] \<Rightarrow> (False, t)
      | c # r \<Rightarrow> if c = CHR ''-'' then (True, r) else if c = CHR ''+'' then (False, r) else (False, t))"

definition strtol :: "cstring \<Rightarrow> int \<times> cstring" where
  "strtol s =
     (let (neg, u) = sign_of (dropWhile isspace s);
          ds = takeWhile isdigit u
      in if ds = [] then (0, s)
         else (clamp_long (if neg then - int (digits_value ds) else int (digits_value ds)),
               dropWhile isdigit u))"

definition atoi :: "cstring \<Rightarrow> int" where
  "atoi s = to_int (fst (strtol s))"

section \<open>Printing: the conversion %d\<close>

fun dec_nat :: "nat \<Rightarrow> string" where
  "dec_nat n =
     (if n < 10 then [char_of (48 + n)] else dec_nat (n div 10) @ [char_of (48 + n mod 10)])"

declare dec_nat.simps [simp del]

definition dec :: "int \<Rightarrow> string" where
  "dec i = (if i < 0 then CHR ''-'' # dec_nat (nat (- i)) else dec_nat (nat i))"

section \<open>Digits\<close>

lemma isdigit_char_of [simp]: "d < 10 \<Longrightarrow> isdigit (char_of (48 + d :: nat))"
  by (simp add: isdigit_def)

lemma digit_of_char_of [simp]: "d < 10 \<Longrightarrow> digit_of (char_of (48 + d :: nat)) = d"
  by (simp add: digit_of_def)

lemma isdigit_not_space: "isdigit c \<Longrightarrow> \<not> isspace c"
  by (auto simp: isdigit_def isspace_def whitespace_def)

lemma isdigit_not_sign: "isdigit c \<Longrightarrow> c \<noteq> CHR ''-'' \<and> c \<noteq> CHR ''+''"
  by (auto simp: isdigit_def)

lemma isdigit_not_nul [simp]: "\<not> isdigit nul"
  by (simp add: isdigit_def)

lemma digit_of_less: "isdigit c \<Longrightarrow> digit_of c < 10"
  by (auto simp: isdigit_def digit_of_def)

lemma digits_value_snoc [simp]: "digits_value (ds @ [c]) = 10 * digits_value ds + digit_of c"
  by (simp add: digits_value_def)

lemma digits_value_Nil [simp]: "digits_value [] = 0"
  by (simp add: digits_value_def)

lemma digits_value_less:
  "list_all isdigit ds \<Longrightarrow> digits_value ds < 10 ^ length ds"
proof (induction ds rule: rev_induct)
  case (snoc c ds)
  hence "digits_value ds < 10 ^ length ds" and "digit_of c < 10"
    by (simp_all add: digit_of_less)
  hence "10 * digits_value ds + digit_of c < 10 * 10 ^ length ds"
    by arith
  thus ?case
    by simp
qed simp

lemma dec_nat_digits [simp]: "list_all isdigit (dec_nat n)"
  by (induction n rule: dec_nat.induct) (subst dec_nat.simps, simp)

lemma dec_nat_not_Nil [simp]: "dec_nat n \<noteq> []"
  by (subst dec_nat.simps) simp

lemma digits_value_dec_nat [simp]: "digits_value (dec_nat n) = n"
  by (induction n rule: dec_nat.induct) (subst dec_nat.simps, simp add: digits_value_def)

section \<open>What strtol returns\<close>

lemma takeWhile_digits:
  assumes "list_all isdigit ds" and "rest = [] \<or> \<not> isdigit (hd rest)"
  shows "takeWhile isdigit (ds @ rest) = ds" and "dropWhile isdigit (ds @ rest) = rest"
  using assms
  by (cases rest; auto simp: list_all_iff takeWhile_append dropWhile_append)+

lemma strtol_digits:
  assumes "list_all isdigit ds" and "ds \<noteq> []" and "rest = [] \<or> \<not> isdigit (hd rest)"
  shows "strtol (ds @ rest) = (clamp_long (int (digits_value ds)), rest)"
proof -
  from assms(1,2) have h: "isdigit (hd ds)"
    by (cases ds) simp_all
  with assms(2) have "dropWhile isspace (ds @ rest) = ds @ rest"
    by (cases ds) (simp_all add: isdigit_not_space)
  moreover from h assms(2) have "sign_of (ds @ rest) = (False, ds @ rest)"
    by (cases ds) (auto simp: sign_of_def dest: isdigit_not_sign)
  ultimately show ?thesis
    using assms(2) by (simp add: strtol_def takeWhile_digits [OF assms(1,3)])
qed

lemma strtol_minus_digits:
  assumes "list_all isdigit ds" and "ds \<noteq> []" and "rest = [] \<or> \<not> isdigit (hd rest)"
  shows "strtol (CHR ''-'' # ds @ rest) = (clamp_long (- int (digits_value ds)), rest)"
  using assms(2)
  by (simp add: strtol_def sign_of_def isspace_def whitespace_def takeWhile_digits [OF assms(1,3)])

lemma strtol_no_digits:
  assumes "s = [] \<or> (\<not> isspace (hd s) \<and> \<not> isdigit (hd s) \<and> hd s \<noteq> CHR ''-'' \<and> hd s \<noteq> CHR ''+'')"
  shows "strtol s = (0, s)"
  using assms by (cases s) (auto simp: strtol_def sign_of_def)

lemma clamp_long_id: "- LONG_MAX - 1 \<le> v \<Longrightarrow> v \<le> LONG_MAX \<Longrightarrow> clamp_long v = v"
  by (simp add: clamp_long_def)

lemma to_int_id: "- INT_MAX - 1 \<le> v \<Longrightarrow> v \<le> INT_MAX \<Longrightarrow> to_int v = v"
  by (simp add: to_int_def INT_MAX_def)

lemma to_int_range: "- INT_MAX - 1 \<le> to_int v \<and> to_int v \<le> INT_MAX"
  unfolding to_int_def INT_MAX_def
  using pos_mod_bound [of "2 ^ 32" "v + 2 ^ 31"] pos_mod_sign [of "2 ^ 32" "v + 2 ^ 31"]
  by simp

lemma strtol_dec:
  assumes "- LONG_MAX - 1 \<le> i" and "i \<le> LONG_MAX" and "rest = [] \<or> \<not> isdigit (hd rest)"
  shows "strtol (dec i @ rest) = (i, rest)"
proof (cases "i < 0")
  case True
  with assms show ?thesis
    by (simp add: dec_def strtol_minus_digits clamp_long_id)
next
  case False
  with assms show ?thesis
    by (simp add: dec_def strtol_digits clamp_long_id)
qed

lemma atoi_dec:
  assumes "- INT_MAX - 1 \<le> i" and "i \<le> INT_MAX"
  shows "atoi (dec i) = i"
proof -
  from assms have "- LONG_MAX - 1 \<le> i" and "i \<le> LONG_MAX"
    by (simp_all add: INT_MAX_def LONG_MAX_def)
  from strtol_dec [OF this, of "[]"] assms show ?thesis
    by (simp add: atoi_def to_int_id)
qed

section \<open>The size of what a short string denotes\<close>

lemma length_sign_of: "length (snd (sign_of t)) \<le> length t"
  by (cases t) (simp_all add: sign_of_def)

lemma abs_clamp_long: "\<bar>clamp_long v\<bar> \<le> \<bar>v\<bar>"
  by (simp add: clamp_long_def LONG_MAX_def)

lemma list_all_takeWhile [simp]: "list_all P (takeWhile P xs)"
  by (induction xs) simp_all

lemma strtol_bound: "\<bar>fst (strtol s)\<bar> * 10 ^ length (snd (strtol s)) < 10 ^ length s"
proof -
  obtain neg u where su: "sign_of (dropWhile isspace s) = (neg, u)"
    by (cases "sign_of (dropWhile isspace s)")
  let ?ds = "takeWhile isdigit u" and ?r = "dropWhile isdigit u"
  show ?thesis
  proof (cases "?ds = []")
    case True
    with su show ?thesis
      by (simp add: strtol_def)
  next
    case False
    let ?v = "if neg then - int (digits_value ?ds) else int (digits_value ?ds)"
    have "length u \<le> length (dropWhile isspace s)"
      using length_sign_of [of "dropWhile isspace s"] su by simp
    hence len: "length ?ds + length ?r \<le> length s"
      using length_dropWhile_le [of isspace s] takeWhile_dropWhile_id [of isdigit u]
      by (metis length_append order_trans)
    have "\<bar>clamp_long ?v\<bar> \<le> int (digits_value ?ds)"
      using abs_clamp_long [of ?v] by (cases neg) simp_all
    also have "\<dots> < 10 ^ length ?ds"
      using digits_value_less [of ?ds] by (simp add: of_nat_less_iff [symmetric] del: of_nat_less_iff)
    finally have "\<bar>clamp_long ?v\<bar> * 10 ^ length ?r < (10 :: int) ^ length ?ds * 10 ^ length ?r"
      by simp
    also have "\<dots> = 10 ^ (length ?ds + length ?r)"
      by (simp add: power_add)
    also have "\<dots> \<le> 10 ^ length s"
      using len by (simp add: power_increasing)
    finally show ?thesis
      using False su by (simp add: strtol_def Let_def)
  qed
qed

lemma length_strtol_rest: "length (snd (strtol s)) \<le> length s"
proof -
  obtain neg u where su: "sign_of (dropWhile isspace s) = (neg, u)"
    by (cases "sign_of (dropWhile isspace s)")
  have "length (dropWhile isdigit u) \<le> length u" and "length u \<le> length (dropWhile isspace s)"
    and "length (dropWhile isspace s) \<le> length s"
    using length_sign_of [of "dropWhile isspace s"] su by (simp_all add: length_dropWhile_le)
  hence "length (dropWhile isdigit u) \<le> length s"
    by linarith
  with su show ?thesis
    by (simp add: strtol_def Let_def)
qed

lemma strtol_abs_less: "\<bar>fst (strtol s)\<bar> < 10 ^ length s"
proof -
  have "\<bar>fst (strtol s)\<bar> * 1 \<le> \<bar>fst (strtol s)\<bar> * 10 ^ length (snd (strtol s))"
    by (rule mult_left_mono) simp_all
  with strtol_bound [of s] show ?thesis
    by simp
qed

lemma to_int_short:
  assumes "\<bar>v\<bar> < 10 ^ k" and "k \<le> 9"
  shows "to_int v = v"
proof -
  have "(10 :: int) ^ k \<le> 10 ^ 9"
    using assms(2) by (intro power_increasing) simp_all
  with assms(1) show ?thesis
    by (intro to_int_id) (simp_all add: INT_MAX_def)
qed

end
