(* ===== verification/CdHistory.thy ===== *)
theory CdHistory
  imports Command Numbers
begin

text \<open>
  The directory history of the shell: the \<open>cd\<close> branch (lines 556-612) and the
  \<open>cdh\<close> branch (lines 614-680) of \<open>process_command\<close> in
  \<open>src/src/shell-skeleton.c\<close>.

  The part of the operating system the two branches touch is the record \<open>shell_env\<close>:
  the working directory, the value of \<open>HOME\<close>, the bytes of \<open>$HOME/cdhistory.txt\<close>
  (\<open>None\<close> when the file cannot be opened for reading) and whether the file can be
  opened for writing. Path resolution by the kernel is a parameter \<open>resolve\<close> of the
  builtins, from the working directory and the argument of \<open>chdir\<close> to the new working
  directory, \<open>None\<close> when \<open>chdir\<close> returns \<open>-1\<close>. The message printed in that
  case is output only and is not part of the state.

  The stack arrays of the code are fixed: ten history entries of 256 bytes and 256 bytes
  for the path of the file and for the working directory. What the code does when one of
  them is too small (an out-of-bounds write, or the use of a buffer that \<open>getcwd\<close>
  left indeterminate) is the error \<open>Inl\<close> of the model, as is \<open>fprintf\<close> on the null
  stream of a failed \<open>fopen\<close> and the use of a history slot that was never read.

  The lemmas give the round trip between the file and the list of its entries, the
  invariant of the file that both builtins keep, the position of the new entry, the
  eviction of the oldest entry, and the correspondence between the menu \<open>cdh\<close> prints
  and the entry a choice selects.
\<close>

section \<open>The environment and the history file\<close>

datatype hist_error =
  HistoryOverflow | EntryOverflow | CwdOverflow | PathOverflow | NullString | NullStream | BadChoice

record shell_env =
  cwd :: cstring
  home :: "cstring option"
  history_file :: "char list option"
  history_writable :: bool

definition history_path :: "cstring option \<Rightarrow> hist_error + cstring" where
  "history_path home_dir =
     (case home_dir of
        None \<Rightarrow> Inl NullString
      | Some d \<Rightarrow>
          if 256 < length (d @ ''/cdhistory.txt'') + 1 then Inl PathOverflow
          else Inr (d @ ''/cdhistory.txt''))"

definition read_history :: "char list \<Rightarrow> hist_error + cstring list" where
  "read_history content =
     (let history = tokens whitespace content in
      if 10 < length history then Inl HistoryOverflow
      else if list_ex (\<lambda>e. 256 < length e + 1) history then Inl EntryOverflow
      else Inr history)"

definition write_history :: "cstring list \<Rightarrow> char list" where
  "write_history new_history = concat (map (\<lambda>e. e @ [newline]) new_history)"

definition dedup_append :: "cstring list \<Rightarrow> cstring \<Rightarrow> cstring list" where
  "dedup_append history p = filter (\<lambda>h. \<not> strcmp_eq h p) history @ [p]"

definition evict :: "cstring list \<Rightarrow> cstring list" where
  "evict new_history =
     (if length new_history = 11 then take 10 (drop 1 new_history) else new_history)"

definition do_chdir ::
  "(cstring \<Rightarrow> cstring \<Rightarrow> cstring option) \<Rightarrow> cstring option \<Rightarrow> shell_env \<Rightarrow> shell_env" where
  "do_chdir resolve path env =
     (case path of
        None \<Rightarrow> env
      | Some p \<Rightarrow> (case resolve (cwd env) p of None \<Rightarrow> env | Some d \<Rightarrow> env\<lparr>cwd := d\<rparr>))"

section \<open>The cd branch\<close>

definition builtin_cd ::
  "(cstring \<Rightarrow> cstring \<Rightarrow> cstring option) \<Rightarrow> command_fields \<Rightarrow> shell_env \<Rightarrow>
     (hist_error + shell_env) option" where
  "builtin_cd resolve command env =
     (if \<not> 0 < arg_count command then None
      else Some
        (let env1 = do_chdir resolve (args command ! 1) env in
         case history_path (home env1) of
           Inl e \<Rightarrow> Inl e
         | Inr full_path \<Rightarrow>
             (case (case history_file env1 of
                      None \<Rightarrow> Inr []
                    | Some content \<Rightarrow>
                        if history_writable env1 then read_history content else Inr []) of
                Inl e \<Rightarrow> Inl e
              | Inr history \<Rightarrow>
                  if 256 < length (cwd env1) + 1 then Inl CwdOverflow
                  else if \<not> history_writable env1 then Inl NullStream
                  else Inr (env1\<lparr>history_file :=
                         Some (write_history (evict (dedup_append history (cwd env1))))\<rparr>))))"

section \<open>The cdh branch\<close>

definition cdh_menu :: "cstring list \<Rightarrow> (char \<times> nat \<times> cstring) list" where
  "cdh_menu history =
     map (\<lambda>k. (char_of (97 + (length history - k) - 1 :: nat), length history - k, history ! k))
       [0..<length history]"

definition choice_index :: "nat \<Rightarrow> char \<Rightarrow> int" where
  "choice_index j choice =
     int j - (if isdigit choice then int (of_char choice) - 48
              else int (of_char choice) - 97 + 1)"

definition builtin_cdh ::
  "(cstring \<Rightarrow> cstring \<Rightarrow> cstring option) \<Rightarrow> char option \<Rightarrow> shell_env \<Rightarrow>
     hist_error + shell_env" where
  "builtin_cdh resolve input env =
     (case history_path (home env) of
        Inl e \<Rightarrow> Inl e
      | Inr full_path \<Rightarrow>
          (case history_file env of
             None \<Rightarrow> Inr env
           | Some content \<Rightarrow>
               (case read_history content of
                  Inl e \<Rightarrow> Inl e
                | Inr history \<Rightarrow>
                    (let choiceNum = choice_index (length history)
                           (case input of None \<Rightarrow> CHR ''a'' | Some c \<Rightarrow> c)
                     in if choiceNum < 0 \<or> int (length history) \<le> choiceNum then Inl BadChoice
                        else let env1 = do_chdir resolve (Some (history ! nat choiceNum)) env
                             in if \<not> history_writable env1 then Inl NullStream
                                else Inr (env1\<lparr>history_file := Some (write_history
                                       (dedup_append history (history ! nat choiceNum)))\<rparr>)))))"

section \<open>Well-formed histories\<close>

definition wf_entry :: "cstring \<Rightarrow> bool" where
  "wf_entry e \<longleftrightarrow> e \<noteq> [] \<and> length e < 256 \<and> (\<forall>c \<in> set e. c \<notin> set whitespace)"

definition wf_history :: "cstring list \<Rightarrow> bool" where
  "wf_history es \<longleftrightarrow> length es \<le> 10 \<and> distinct es \<and> list_all wf_entry es"

definition wf_env :: "shell_env \<Rightarrow> bool" where
  "wf_env env \<longleftrightarrow>
     history_writable env \<and>
     (case home env of None \<Rightarrow> False | Some d \<Rightarrow> length d < 242) \<and>
     (case history_file env of
        None \<Rightarrow> True
      | Some content \<Rightarrow>
          (case read_history content of
             Inl e \<Rightarrow> False
           | Inr es \<Rightarrow> wf_history es \<and> content = write_history es))"

definition entries :: "shell_env \<Rightarrow> cstring list" where
  "entries env =
     (case history_file env of
        None \<Rightarrow> []
      | Some content \<Rightarrow> (case read_history content of Inl e \<Rightarrow> [] | Inr es \<Rightarrow> es))"

lemma newline_whitespace [simp]: "newline \<in> set whitespace"
  by (simp add: whitespace_def)

lemma wf_entryD:
  assumes "wf_entry e"
  shows "e \<noteq> []" and "length e < 256" and "set e \<inter> set whitespace = {}"
  using assms by (auto simp: wf_entry_def)

lemma wf_historyD:
  assumes "wf_history es"
  shows "length es \<le> 10" and "distinct es" and "\<And>e. e \<in> set es \<Longrightarrow> wf_entry e"
  using assms by (auto simp: wf_history_def list_all_iff)

lemma tokens_write_history:
  "list_all wf_entry es \<Longrightarrow> tokens whitespace (write_history es) = es"
proof (induction es)
  case Nil
  show ?case by (simp add: write_history_def tokens_Nil)
next
  case (Cons e es)
  then have e: "e \<noteq> []" "set e \<inter> set whitespace = {}" and es: "list_all wf_entry es"
    by (simp_all add: wf_entryD)
  have "tokens whitespace (write_history (e # es)) =
      tokens whitespace (e @ newline # write_history es)"
    by (simp add: write_history_def)
  also have "\<dots> = e # tokens whitespace (write_history es)"
    by (rule tokens_word [OF e newline_whitespace])
  finally show ?case
    using Cons.IH [OF es] by simp
qed

lemma read_history_Inr_iff:
  "read_history content = Inr es \<longleftrightarrow>
     es = tokens whitespace content \<and> length es \<le> 10 \<and> (\<forall>e \<in> set es. length e < 256)"
proof -
  have "256 < length e + 1 \<longleftrightarrow> \<not> length e < 256" for e :: cstring
    by arith
  then show ?thesis
    by (auto simp: read_history_def Let_def list_ex_iff)
qed

lemma read_write_entries:
  assumes "length es \<le> 10" and "list_all wf_entry es"
  shows "read_history (write_history es) = Inr es"
  using assms by (auto simp: read_history_Inr_iff tokens_write_history list_all_iff wf_entry_def)

lemma history_path_wf:
  "length d < 242 \<Longrightarrow> history_path (Some d) = Inr (d @ ''/cdhistory.txt'')"
  by (simp add: history_path_def)

lemma set_dedup_append [simp]: "set (dedup_append history p) = insert p (set history)"
  by (auto simp: dedup_append_def)

lemma distinct_dedup_append [simp]:
  "distinct history \<Longrightarrow> distinct (dedup_append history p)"
  by (simp add: dedup_append_def)

lemma last_dedup_append [simp]: "last (dedup_append history p) = p"
  by (simp add: dedup_append_def)

lemma dedup_append_nonempty [simp]: "dedup_append history p \<noteq> []"
  by (simp add: dedup_append_def)

lemma length_dedup_append_le: "length (dedup_append history p) \<le> Suc (length history)"
  by (simp add: dedup_append_def)

lemma dedup_append_fresh: "p \<notin> set history \<Longrightarrow> dedup_append history p = history @ [p]"
  by (auto simp: dedup_append_def filter_id_conv)

lemma length_dedup_append_mem:
  "p \<in> set history \<Longrightarrow> length (dedup_append history p) \<le> length history"
  using length_filter_less [of p history "\<lambda>h. h \<noteq> p"]
  by (simp add: dedup_append_def)

lemma evict_cases:
  assumes "length new_history \<le> 11"
  obtains "length new_history \<le> 10" and "evict new_history = new_history"
  | "length new_history = 11" and "evict new_history = tl new_history"
  using assms by (cases "length new_history = 11") (auto simp: evict_def drop_Suc)

lemma last_evict:
  assumes "new_history \<noteq> []"
  shows "last (evict new_history) = last new_history"
proof (cases "length new_history = 11")
  case True
  then obtain x y ys where "new_history = x # y # ys"
    by (cases new_history; cases "tl new_history") auto
  then have "tl new_history \<noteq> []"
    by simp
  moreover from True have "evict new_history = tl new_history"
    by (simp add: evict_def drop_Suc)
  ultimately show ?thesis
    by (simp add: last_tl)
qed (simp add: evict_def)

lemma wf_history_evict_dedup:
  assumes "wf_history history" and "wf_entry p"
  shows "wf_history (evict (dedup_append history p))"
proof -
  note h = wf_historyD [OF assms(1)]
  have d: "distinct (dedup_append history p)" and w: "list_all wf_entry (dedup_append history p)"
    using h assms(2) by (simp_all add: list_all_iff)
  from h(1) have "length (dedup_append history p) \<le> 11"
    using length_dedup_append_le [of history p] by simp
  then show ?thesis
  proof (cases rule: evict_cases)
    case 1
    with d w show ?thesis by (simp add: wf_history_def)
  next
    case 2
    have "set (tl (dedup_append history p)) \<subseteq> set (dedup_append history p)"
      by (auto dest: list.set_sel(2) [rotated])
    with 2 d w show ?thesis
      by (auto simp: wf_history_def distinct_tl list_all_iff simp del: set_dedup_append)
  qed
qed

lemma do_chdir_frame [simp]:
  "home (do_chdir resolve path env) = home env"
  "history_file (do_chdir resolve path env) = history_file env"
  "history_writable (do_chdir resolve path env) = history_writable env"
  by (simp_all add: do_chdir_def split: option.split)

lemma cwd_do_chdir:
  "cwd (do_chdir resolve path env) =
     (case path of None \<Rightarrow> cwd env
      | Some p \<Rightarrow> (case resolve (cwd env) p of None \<Rightarrow> cwd env | Some d \<Rightarrow> d))"
  by (simp add: do_chdir_def split: option.split)

lemma wf_envE:
  assumes "wf_env env"
  obtains d where "history_path (home env) = Inr (d @ ''/cdhistory.txt'')"
    and "history_writable env" and "wf_history (entries env)"
    and "\<And>content. history_file env = Some content \<Longrightarrow>
           read_history content = Inr (entries env) \<and> content = write_history (entries env)"
proof -
  from assms obtain d where d: "home env = Some d" "length d < 242"
    by (cases "home env") (auto simp: wf_env_def)
  have w: "wf_history (entries env)"
    using assms by (auto simp: wf_env_def entries_def wf_history_def split: option.splits sum.splits)
  have "read_history content = Inr (entries env) \<and> content = write_history (entries env)"
    if "history_file env = Some content" for content
    using assms that by (auto simp: wf_env_def entries_def split: sum.splits)
  with d w assms show ?thesis
    by (intro that [of d]) (auto simp: history_path_wf wf_env_def)
qed

lemma wf_env_write:
  assumes "wf_env env" and "wf_history es"
  shows "wf_env (env\<lparr>history_file := Some (write_history es)\<rparr>)"
    and "entries (env\<lparr>history_file := Some (write_history es)\<rparr>) = es"
proof -
  from assms(2) have "read_history (write_history es) = Inr es"
    by (simp add: read_write_entries wf_history_def)
  with assms show "wf_env (env\<lparr>history_file := Some (write_history es)\<rparr>)"
    and "entries (env\<lparr>history_file := Some (write_history es)\<rparr>) = es"
    by (simp_all add: wf_env_def entries_def)
qed

lemma wf_env_do_chdir [simp]: "wf_env (do_chdir resolve path env) = wf_env env"
  by (simp add: wf_env_def)

lemma entries_do_chdir [simp]: "entries (do_chdir resolve path env) = entries env"
  by (simp add: entries_def)

lemma builtin_cd_ok:
  assumes "0 < arg_count command" and "env1 = do_chdir resolve (args command ! 1) env"
    and "history_path (home env1) = Inr full_path"
    and "(case history_file env1 of None \<Rightarrow> Inr []
      | Some content \<Rightarrow> if history_writable env1 then read_history content else Inr []) =
      Inr history"
    and "\<not> 256 < length (cwd env1) + 1" and "history_writable env1"
  shows "builtin_cd resolve command env =
    Some (Inr (env1\<lparr>history_file := Some (write_history (evict (dedup_append history (cwd env1))))\<rparr>))"
  unfolding builtin_cd_def Let_def assms(2) [symmetric] assms(3) assms(4)
  using assms(1,5,6) by simp

lemma builtin_cdh_ok:
  assumes "history_path (home env) = Inr full_path" and "history_file env = Some content"
    and "read_history content = Inr history"
    and "choice_index (length history) (case input of None \<Rightarrow> CHR ''a'' | Some c \<Rightarrow> c) = int k"
    and "k < length history" and "history_writable env"
  shows "builtin_cdh resolve input env =
    Inr ((do_chdir resolve (Some (history ! k)) env)
      \<lparr>history_file := Some (write_history (dedup_append history (history ! k)))\<rparr>)"
  unfolding builtin_cdh_def Let_def assms(1) assms(2) assms(3) assms(4) sum.case option.case
  using assms(5,6) by simp

lemma builtin_cdh_bad:
  assumes "history_path (home env) = Inr full_path" and "history_file env = Some content"
    and "read_history content = Inr history"
    and "choice_index (length history) (case input of None \<Rightarrow> CHR ''a'' | Some c \<Rightarrow> c) = i"
    and "i < 0 \<or> int (length history) \<le> i"
  shows "builtin_cdh resolve input env = Inl BadChoice"
  unfolding builtin_cdh_def Let_def assms(1) assms(2) assms(3) assms(4) sum.case option.case
  using assms(5) by auto

lemma cdh_menuE:
  assumes "(letter, n, h) \<in> set (cdh_menu history)"
  obtains k where "k < length history" and "n = length history - k" and "h = history ! k"
    and "letter = char_of (97 + (length history - k) - 1)"
  using assms by (auto simp: cdh_menu_def)

lemma choice_index_letter:
  assumes "k < j" and "j \<le> 26"
  shows "choice_index j (char_of (97 + (j - k) - 1)) = int k"
proof -
  define m where "m = j - k"
  with assms have m: "0 < m" "m \<le> 26" "int j - int m = int k"
    by simp_all
  then have "of_char (char_of (97 + m - 1)) = 96 + m"
    by simp
  with m show ?thesis
    unfolding m_def [symmetric] by (simp add: choice_index_def isdigit_def)
qed

lemma choice_index_digit:
  assumes "k \<le> j" and "j - k \<le> 9"
  shows "choice_index j (char_of (48 + (j - k))) = int k"
proof -
  define m where "m = j - k"
  with assms have m: "m \<le> 9" "int j - int m = int k"
    by simp_all
  then have "of_char (char_of (48 + m)) = 48 + m"
    by simp
  with m show ?thesis
    unfolding m_def [symmetric] by (simp add: choice_index_def isdigit_def)
qed

lemma wf_history_dedup_mem:
  assumes "wf_history history" and "p \<in> set history"
  shows "wf_history (dedup_append history p)"
  using assms length_dedup_append_mem [OF assms(2)]
  by (auto simp: wf_history_def list_all_iff)

lemma length_dedup_append_11:
  assumes "length history \<le> 10"
  shows "length (dedup_append history p) = 11 \<longleftrightarrow> length history = 10 \<and> p \<notin> set history"
proof (cases "p \<in> set history")
  case True
  with assms length_dedup_append_mem [OF True] show ?thesis by simp
next
  case False
  with assms show ?thesis by (simp add: dedup_append_fresh)
qed

lemma tokens_two_words:
  assumes "a \<noteq> []" and "set a \<inter> set delim = {}" and "b \<noteq> []" and "set b \<inter> set delim = {}"
    and "d \<in> set delim" and "e \<in> set delim"
  shows "tokens delim (a @ d # b @ [e]) = [a, b]"
proof -
  have "tokens delim (a @ d # b @ [e]) = a # tokens delim (b @ e # [])"
    by (rule tokens_word [OF assms(1,2,5)])
  also have "tokens delim (b @ e # []) = b # tokens delim []"
    by (rule tokens_word [OF assms(3,4,6)])
  finally show ?thesis
    by (simp add: tokens_Nil)
qed

section \<open>Properties of the history\<close>

text \<open>
  C39. Reading back what the shell wrote gives the same entries: a list of at most ten
  non-empty paths without white space, each shorter than the 256-byte slot, survives
  \<open>fprintf\<close> of one path per line followed by the \<open>fscanf\<close> loop.
\<close>

theorem history_roundtrip:
  "wf_history es \<Longrightarrow> read_history (write_history es) = Inr es"
  by (simp add: read_write_entries wf_history_def)

theorem history_roundtrip_witness:
  "wf_history [''/tmp'', ''/home/u''] \<and>
   read_history (write_history [''/tmp'', ''/home/u'']) = Inr [''/tmp'', ''/home/u'']"
proof -
  have h: "wf_history [''/tmp'', ''/home/u'']"
    by (simp add: wf_history_def wf_entry_def whitespace_def)
  from history_roundtrip [OF h] h show ?thesis by simp
qed

lemma cd_history:
  assumes "wf_env env" and "0 < arg_count command"
    and "wf_entry (cwd (do_chdir resolve (args command ! 1) env))"
  shows "\<exists>env'. builtin_cd resolve command env = Some (Inr env') \<and> wf_env env' \<and>
    cwd env' = cwd (do_chdir resolve (args command ! 1) env) \<and>
    entries env' = evict (dedup_append (entries env) (cwd env')) \<and>
    last (entries env') = cwd env'"
proof -
  define env1 where "env1 = do_chdir resolve (args command ! 1) env"
  define es where "es = evict (dedup_append (entries env) (cwd env1))"
  from assms(1) have w1: "wf_env env1"
    by (simp add: env1_def)
  from w1 obtain d where d: "history_path (home env1) = Inr (d @ ''/cdhistory.txt'')"
    and wr: "history_writable env1" and wh: "wf_history (entries env1)"
    and rd: "\<And>content. history_file env1 = Some content \<Longrightarrow>
           read_history content = Inr (entries env1) \<and> content = write_history (entries env1)"
    by (rule wf_envE) (rule that)
  have e1: "entries env1 = entries env"
    by (simp add: env1_def)
  from assms(3) have c: "wf_entry (cwd env1)"
    by (simp add: env1_def)
  then have len: "\<not> 256 < length (cwd env1) + 1"
    by (simp add: wf_entry_def)
  have wes: "wf_history es"
    unfolding es_def using wh c by (simp add: e1 wf_history_evict_dedup)
  have hist: "(case history_file env1 of None \<Rightarrow> Inr []
      | Some content \<Rightarrow> if history_writable env1 then read_history content else Inr []) =
      Inr (entries env)"
  proof (cases "history_file env1")
    case None
    then have "entries env1 = []"
      by (simp add: entries_def)
    with None e1 show ?thesis
      by simp
  next
    case (Some content)
    from rd [OF Some, THEN conjunct1] have "read_history content = Inr (entries env)"
      by (simp only: e1)
    with Some wr show ?thesis
      by simp
  qed
  have "builtin_cd resolve command env =
      Some (Inr (env1\<lparr>history_file := Some (write_history es)\<rparr>))"
    unfolding es_def by (rule builtin_cd_ok [OF assms(2) env1_def d hist len wr])
  moreover have "last es = cwd env1"
    by (simp add: es_def last_evict)
  ultimately show ?thesis
    using wf_env_write [OF w1 wes] by (simp add: es_def env1_def)
qed

text \<open>
  C10. \<open>cd\<close> keeps the history file well formed: from an environment whose history file
  holds at most ten distinct entries, \<open>cd\<close> into a directory whose path has no white
  space and fits its buffer succeeds, and leaves a well-formed file whose entries are the
  old ones without the new working directory, followed by it, less the oldest entry if
  that makes eleven; the new working directory is the last entry.
\<close>

theorem cd_keeps_history:
  assumes "wf_env env" and "0 < arg_count command"
    and "wf_entry (cwd (do_chdir resolve (args command ! 1) env))"
  shows "\<exists>env'. builtin_cd resolve command env = Some (Inr env') \<and> wf_env env' \<and>
    cwd env' = cwd (do_chdir resolve (args command ! 1) env) \<and>
    entries env' = evict (dedup_append (entries env) (cwd env')) \<and>
    last (entries env') = cwd env'"
  using assms by (rule cd_history)

theorem cd_keeps_history_witness:
  "wf_env \<lparr>cwd = ''/'', home = Some ''/home/u'', history_file = Some (write_history [''/tmp'', ''/var'']),
     history_writable = True\<rparr> \<and>
   (\<exists>env'. builtin_cd (\<lambda>c p. Some p)
       \<lparr>name = ''cd'', background = False, auto_complete = False, arg_count = 3,
        args = [Some ''cd'', Some ''/tmp'', None], redirects = [Null, Null, Null]\<rparr>
       \<lparr>cwd = ''/'', home = Some ''/home/u'', history_file = Some (write_history [''/tmp'', ''/var'']),
        history_writable = True\<rparr> = Some (Inr env') \<and>
     cwd env' = ''/tmp'' \<and> entries env' = [''/var'', ''/tmp''])"
proof -
  let ?env = "\<lparr>cwd = ''/'', home = Some ''/home/u'',
    history_file = Some (write_history [''/tmp'', ''/var'']), history_writable = True\<rparr>"
  let ?cmd = "\<lparr>name = ''cd'', background = False, auto_complete = False, arg_count = 3,
    args = [Some ''cd'', Some ''/tmp'', None], redirects = [Null, Null, Null]\<rparr>"
  have h: "wf_history [''/tmp'', ''/var'']"
    by (simp add: wf_history_def wf_entry_def whitespace_def)
  then have r: "read_history (write_history [''/tmp'', ''/var'']) = Inr [''/tmp'', ''/var'']"
    by (simp add: read_write_entries wf_history_def)
  with h have w: "wf_env ?env" and e: "entries ?env = [''/tmp'', ''/var'']"
    by (simp_all add: wf_env_def entries_def)
  have c: "cwd (do_chdir (\<lambda>c p. Some p) (args ?cmd ! 1) ?env) = ''/tmp''"
    by (simp add: cwd_do_chdir)
  have a: "0 < arg_count ?cmd" and p: "wf_entry ''/tmp''"
    by (simp_all add: wf_entry_def whitespace_def)
  have d: "evict (dedup_append [''/tmp'', ''/var''] ''/tmp'') = [''/var'', ''/tmp'']"
    by (simp add: evict_def dedup_append_def)
  from cd_keeps_history [of ?env ?cmd "\<lambda>c p. Some p", OF w a] p
  obtain env' where "builtin_cd (\<lambda>c p. Some p) ?cmd ?env = Some (Inr env')"
    and "cwd env' = ''/tmp''" and "entries env' = evict (dedup_append [''/tmp'', ''/var''] (cwd env'))"
    unfolding c e by blast
  with w d show ?thesis
    by auto
qed

text \<open>
  The history is capped at ten entries and the oldest goes first: when the file
  already holds ten entries and the new working directory is not among them, the first
  entry is dropped; in every other case nothing but an older copy of the new working
  directory is removed.
\<close>

theorem cd_evicts_oldest:
  assumes "length history \<le> 10"
  shows "evict (dedup_append history p) =
    (if length history = 10 \<and> p \<notin> set history then tl history @ [p]
     else filter (\<lambda>h. h \<noteq> p) history @ [p])"
proof (cases "length history = 10 \<and> p \<notin> set history")
  case True
  then have "history \<noteq> []"
    by auto
  with True show ?thesis
    by (simp add: evict_def dedup_append_fresh drop_Suc)
next
  case False
  with length_dedup_append_11 [OF assms, of p] have "length (dedup_append history p) \<noteq> 11"
    by simp
  then have "evict (dedup_append history p) = dedup_append history p"
    by (simp add: evict_def)
  with False show ?thesis
    by (auto simp: dedup_append_def)
qed

theorem cd_evicts_oldest_witness:
  "length (map (\<lambda>n. [char_of (97 + n)]) [0..<10]) \<le> 10 \<and>
   evict (dedup_append (map (\<lambda>n. [char_of (97 + n)]) [0..<10]) ''z'') =
     map (\<lambda>n. [char_of (97 + n)]) [1..<10] @ [''z'']"
proof -
  have l: "length (map (\<lambda>n. [char_of (97 + n :: nat)]) [0..<10]) \<le> 10"
    by simp
  have e: "map (\<lambda>n. [char_of (97 + n :: nat)]) [0..<10] =
      [''a'', ''b'', ''c'', ''d'', ''e'', ''f'', ''g'', ''h'', ''i'', ''j'']"
    by code_simp
  have t: "map (\<lambda>n. [char_of (97 + n :: nat)]) [1..<10] =
      [''b'', ''c'', ''d'', ''e'', ''f'', ''g'', ''h'', ''i'', ''j'']"
    by code_simp
  from cd_evicts_oldest [OF l, of "''z''"] l show ?thesis
    unfolding e t by simp
qed

text \<open>
  The menu of \<open>cdh\<close> and its choice agree: the letter printed beside an entry,
  and its number when that is a single digit, select exactly that entry of the history
  array.
\<close>

theorem cdh_choice_selects:
  assumes "(letter, n, h) \<in> set (cdh_menu history)" and "length history \<le> 10"
  shows "n \<le> length history \<and> history ! (length history - n) = h \<and>
    choice_index (length history) letter = int (length history - n) \<and>
    (n \<le> 9 \<longrightarrow> choice_index (length history) (char_of (48 + n)) = int (length history - n))"
proof -
  from assms(1) obtain k where k: "k < length history" "n = length history - k" "h = history ! k"
    "letter = char_of (97 + (length history - k) - 1)"
    by (rule cdh_menuE)
  then have kn: "length history - n = k"
    by simp
  from k(1) assms(2) have "choice_index (length history) letter = int k"
    unfolding k(4) by (intro choice_index_letter) simp_all
  moreover have "choice_index (length history) (char_of (48 + n)) = int k" if "n \<le> 9"
    unfolding k(2) using k(1) that by (intro choice_index_digit) (simp_all add: k(2))
  ultimately show ?thesis
    using k(1,3) by (simp add: kn) (simp add: k(2))
qed

theorem cdh_choice_selects_witness:
  "(CHR ''b'', 2, ''/tmp'') \<in> set (cdh_menu [''/tmp'', ''/var'']) \<and>
   choice_index 2 CHR ''b'' = 0 \<and> choice_index 2 CHR ''2'' = 0"
proof -
  have m: "(CHR ''b'', 2, ''/tmp'') \<in> set (cdh_menu [''/tmp'', ''/var''])"
    by code_simp
  have c: "char_of (48 + 2 :: nat) = CHR ''2''"
    by code_simp
  from cdh_choice_selects [OF m] m c show ?thesis
    by (simp add: numeral_2_eq_2)
qed

text \<open>
  C40. \<open>cdh\<close> moves the chosen entry to the most recent position: from a well-formed
  environment with a history file, the letter printed beside an entry makes \<open>cdh\<close>
  call \<open>chdir\<close> on that entry and rewrite the file with the entry last and the
  others in their old order; the file stays well formed, whether or not \<open>chdir\<close>
  succeeded.
\<close>

theorem cdh_moves_choice_last:
  assumes "wf_env env" and "history_file env = Some content"
    and "(letter, n, h) \<in> set (cdh_menu (entries env))"
  shows "\<exists>env'. builtin_cdh resolve (Some letter) env = Inr env' \<and> wf_env env' \<and>
    entries env' = filter (\<lambda>e. e \<noteq> h) (entries env) @ [h] \<and>
    cwd env' = (case resolve (cwd env) h of None \<Rightarrow> cwd env | Some d \<Rightarrow> d)"
proof -
  from assms(1) obtain d where d: "history_path (home env) = Inr (d @ ''/cdhistory.txt'')"
    and wr: "history_writable env" and wh: "wf_history (entries env)"
    and rd: "\<And>content. history_file env = Some content \<Longrightarrow>
           read_history content = Inr (entries env) \<and> content = write_history (entries env)"
    by (rule wf_envE) (rule that)
  from assms(3) obtain k where k: "k < length (entries env)" "h = entries env ! k"
    "letter = char_of (97 + (length (entries env) - k) - 1)"
    by (rule cdh_menuE)
  from wh have "length (entries env) \<le> 26"
    by (simp add: wf_history_def)
  with k(1) have c: "choice_index (length (entries env))
      (case Some letter of None \<Rightarrow> CHR ''a'' | Some c \<Rightarrow> c) = int k"
    unfolding k(3) option.case by (rule choice_index_letter)
  let ?env' = "(do_chdir resolve (Some h) env)
      \<lparr>history_file := Some (write_history (dedup_append (entries env) h))\<rparr>"
  have b: "builtin_cdh resolve (Some letter) env = Inr ?env'"
    unfolding k(2) by (rule builtin_cdh_ok [OF d assms(2) rd [OF assms(2), THEN conjunct1] c k(1) wr])
  from k(1,2) have "h \<in> set (entries env)"
    by simp
  with wh have "wf_history (dedup_append (entries env) h)"
    by (rule wf_history_dedup_mem)
  from wf_env_write [OF _ this, of "do_chdir resolve (Some h) env"] assms(1)
  have "wf_env ?env'" and "entries ?env' = dedup_append (entries env) h"
    by simp_all
  with b show ?thesis
    by (simp add: cwd_do_chdir dedup_append_def)
qed

theorem cdh_moves_choice_last_witness:
  "wf_env \<lparr>cwd = ''/'', home = Some ''/home/u'', history_file = Some (write_history [''/tmp'', ''/var'']),
     history_writable = True\<rparr> \<and>
   (\<exists>env'. builtin_cdh (\<lambda>c p. Some p) (Some CHR ''b'')
       \<lparr>cwd = ''/'', home = Some ''/home/u'', history_file = Some (write_history [''/tmp'', ''/var'']),
        history_writable = True\<rparr> = Inr env' \<and>
     cwd env' = ''/tmp'' \<and> entries env' = [''/var'', ''/tmp''])"
proof -
  let ?env = "\<lparr>cwd = ''/'', home = Some ''/home/u'',
    history_file = Some (write_history [''/tmp'', ''/var'']), history_writable = True\<rparr>"
  have h: "wf_history [''/tmp'', ''/var'']"
    by (simp add: wf_history_def wf_entry_def whitespace_def)
  then have r: "read_history (write_history [''/tmp'', ''/var'']) = Inr [''/tmp'', ''/var'']"
    by (simp add: read_write_entries wf_history_def)
  with h have w: "wf_env ?env" and e: "entries ?env = [''/tmp'', ''/var'']"
    by (simp_all add: wf_env_def entries_def)
  have f: "history_file ?env = Some (write_history [''/tmp'', ''/var''])"
    by simp
  have m: "(CHR ''b'', 2, ''/tmp'') \<in> set (cdh_menu (entries ?env))"
    unfolding e by code_simp
  from cdh_moves_choice_last [OF w f m, of "\<lambda>c p. Some p"] w show ?thesis
    unfolding e by auto
qed

text \<open>
  C35. \<open>cdh\<close> does not check the choice: with an empty history file, or with the answer
  \<open>0\<close>, the index computed from the answer is outside the entries that were read, and
  the code passes a slot of the history array that was never written (or the slot past
  its end) to \<open>chdir\<close>.
\<close>

theorem cdh_unchecked_choice:
  assumes "history_path (home env) = Inr full_path" and "history_file env = Some content"
    and "read_history content = Inr history"
    and "history = [] \<or> input = Some CHR ''0''"
  shows "builtin_cdh resolve input env = Inl BadChoice"
proof -
  define i where "i = choice_index (length history) (case input of None \<Rightarrow> CHR ''a'' | Some c \<Rightarrow> c)"
  from assms(4) have "i < 0 \<or> int (length history) \<le> i"
    by (auto simp: i_def choice_index_def isdigit_def)
  with assms(1-3) i_def [symmetric] show ?thesis
    by (rule builtin_cdh_bad)
qed

theorem cdh_unchecked_choice_witness:
  "history_path (Some ''/home/u'') = Inr ''/home/u/cdhistory.txt'' \<and>
   read_history [] = Inr [] \<and>
   builtin_cdh (\<lambda>c p. Some p) (Some CHR ''a'')
     \<lparr>cwd = ''/'', home = Some ''/home/u'', history_file = Some [], history_writable = True\<rparr> =
     Inl BadChoice"
proof -
  let ?env = "\<lparr>cwd = ''/'', home = Some ''/home/u'', history_file = Some [], history_writable = True\<rparr>"
  have p: "history_path (home ?env) = Inr ''/home/u/cdhistory.txt''"
    by (simp add: history_path_def)
  have f: "history_file ?env = Some []"
    by simp
  have r: "read_history [] = Inr []"
    by (simp add: read_history_def tokens_Nil)
  from cdh_unchecked_choice [OF p f r, of "Some CHR ''a''" "\<lambda>c p. Some p"] p r show ?thesis
    by simp
qed

text \<open>
  A directory whose path contains a blank does not survive the history file: the
  path is written on one line, and the \<open>%s\<close> conversion that reads the file back
  stops at the blank, so the one directory comes back as two entries.
\<close>

theorem cd_path_with_space:
  assumes "wf_entry p" and "wf_entry q"
  shows "read_history (write_history [p @ CHR '' '' # q]) = Inr [p, q]"
proof -
  note p = wf_entryD [OF assms(1)] and q = wf_entryD [OF assms(2)]
  have "tokens whitespace (write_history [p @ CHR '' '' # q]) =
      tokens whitespace (p @ CHR '' '' # q @ [newline])"
    by (simp add: write_history_def)
  also have "\<dots> = [p, q]"
    by (rule tokens_two_words [OF p(1,3) q(1,3)]) (simp_all add: whitespace_def)
  finally show ?thesis
    using p(2) q(2) by (simp add: read_history_Inr_iff)
qed

theorem cd_path_with_space_witness:
  "wf_entry ''/home/u/my'' \<and> wf_entry ''docs'' \<and>
   read_history (write_history [''/home/u/my docs'']) = Inr [''/home/u/my'', ''docs'']"
proof -
  have h: "wf_entry ''/home/u/my''" "wf_entry ''docs''"
    by (simp_all add: wf_entry_def whitespace_def)
  from cd_path_with_space [OF h] h show ?thesis
    by simp
qed

section \<open>Any number of calls\<close>

fun cd_all ::
  "(cstring \<Rightarrow> cstring \<Rightarrow> cstring option) \<Rightarrow> command_fields list \<Rightarrow> shell_env \<Rightarrow>
     (hist_error + shell_env) option" where
  "cd_all resolve [] env = Some (Inr env)"
| "cd_all resolve (c # cs) env =
     (case builtin_cd resolve c env of
        Some (Inr env') \<Rightarrow> cd_all resolve cs env'
      | r \<Rightarrow> r)"

lemma wf_entry_do_chdir:
  assumes "wf_entry (cwd env)" and "\<forall>d p q. resolve d p = Some q \<longrightarrow> wf_entry q"
  shows "wf_entry (cwd (do_chdir resolve path env))"
  using assms by (auto simp: do_chdir_def split: option.splits)

lemma wf_env_entries: "wf_env env \<Longrightarrow> wf_history (entries env)"
  by (auto simp: wf_env_def entries_def wf_history_def split: option.splits sum.splits)

text \<open>
  C11. After any number of calls of \<open>cd\<close> the history file is well formed: from a
  well-formed environment, with a system whose working directories have no white space
  and fit their buffers, every call in a sequence of calls of \<open>cd\<close> succeeds, and the
  file holds at most ten entries, no entry twice, with the working directory of the
  moment as the last entry.
\<close>

theorem cd_sequence_keeps_history:
  assumes "wf_env env" and "wf_entry (cwd env)" and "\<forall>c \<in> set cs. 0 < arg_count c"
    and "\<forall>d p q. resolve d p = Some q \<longrightarrow> wf_entry q"
  shows "\<exists>env'. cd_all resolve cs env = Some (Inr env') \<and> wf_env env' \<and>
    length (entries env') \<le> 10 \<and> distinct (entries env') \<and>
    (cs \<noteq> [] \<longrightarrow> last (entries env') = cwd env')"
  using assms(1-3)
proof (induction cs arbitrary: env)
  case Nil
  from wf_env_entries [OF Nil(1)] Nil(1) show ?case
    by (simp add: wf_history_def)
next
  case (Cons c cs)
  from Cons.prems(3) have a: "0 < arg_count c"
    by simp
  note w = wf_entry_do_chdir [OF Cons.prems(2) assms(4), of "args c ! 1"]
  from cd_history [OF Cons.prems(1) a w] obtain env1
    where 1: "builtin_cd resolve c env = Some (Inr env1)" "wf_env env1"
      "cwd env1 = cwd (do_chdir resolve (args c ! 1) env)" "last (entries env1) = cwd env1"
    by blast
  from w 1(3) have "wf_entry (cwd env1)"
    by simp
  from Cons.IH [OF 1(2) this] Cons.prems(3) obtain env'
    where 2: "cd_all resolve cs env1 = Some (Inr env')" "wf_env env'"
      "length (entries env') \<le> 10" "distinct (entries env')"
      "cs \<noteq> [] \<longrightarrow> last (entries env') = cwd env'"
    by auto
  show ?case
  proof (cases "cs = []")
    case True
    with 1 2 show ?thesis
      by simp
  next
    case False
    with 1 2 show ?thesis
      by simp
  qed
qed

theorem cd_sequence_keeps_history_witness:
  "\<exists>env'. cd_all (\<lambda>d p. if p = ''/tmp'' \<or> p = ''/var'' then Some p else None)
       [\<lparr>name = ''cd'', background = False, auto_complete = False, arg_count = 3,
          args = [Some ''cd'', Some ''/tmp'', None], redirects = [Null, Null, Null]\<rparr>,
        \<lparr>name = ''cd'', background = False, auto_complete = False, arg_count = 3,
          args = [Some ''cd'', Some ''/var'', None], redirects = [Null, Null, Null]\<rparr>]
       \<lparr>cwd = ''/'', home = Some ''/home/u'', history_file = None, history_writable = True\<rparr> =
       Some (Inr env') \<and>
     length (entries env') \<le> 10 \<and> distinct (entries env') \<and> last (entries env') = cwd env'"
proof -
  let ?env = "\<lparr>cwd = ''/'', home = Some ''/home/u'', history_file = None, history_writable = True\<rparr>"
  let ?c1 = "\<lparr>name = ''cd'', background = False, auto_complete = False, arg_count = 3,
          args = [Some ''cd'', Some ''/tmp'', None], redirects = [Null, Null, Null]\<rparr>"
  let ?c2 = "\<lparr>name = ''cd'', background = False, auto_complete = False, arg_count = 3,
          args = [Some ''cd'', Some ''/var'', None], redirects = [Null, Null, Null]\<rparr>"
  let ?resolve = "\<lambda>(d :: cstring) p. if p = ''/tmp'' \<or> p = ''/var'' then Some p else None"
  have h: "wf_env ?env" "wf_entry (cwd ?env)" "\<forall>c \<in> set [?c1, ?c2]. 0 < arg_count c"
    "\<forall>d p q. ?resolve d p = Some q \<longrightarrow> wf_entry q"
    by (auto simp: wf_env_def wf_entry_def whitespace_def)
  from cd_sequence_keeps_history [of ?env "[?c1, ?c2]" ?resolve, OF h] show ?thesis
    by blast
qed

end
