(* ===== verification/Cloc.thy ===== *)
theory Cloc
  imports Command
begin

text \<open>
  The source-tree line counter of the shell: \<open>removeSpaces\<close> (lines 385-391),
  \<open>lineCount\<close> (lines 392-499), \<open>listFiles\<close> (lines 500-544) and the \<open>cloc\<close>
  branch of \<open>process_command\<close> (lines 721-759) in \<open>src/src/shell-skeleton.c\<close>.

  \<open>removeSpaces\<close> is modelled on the buffer it compacts in place, with two indices as in
  the code; running off the end of a buffer that holds no NUL is the value \<open>None\<close>.
  The table \<open>int counts[4][4]\<close> is a list of rows: row 0 Python, 1 C++, 2 C, 3 everything
  else; column 0 code lines, 1 blank lines, 2 comment lines, 3 files. The counters are
  natural numbers: the code counts in \<open>int\<close> and would need more than \<open>2^31\<close> lines to
  leave that range.
  The file system is what the code sees of it: a node has the \<open>d_type\<close> of its directory
  entry, the lines \<open>getline\<close> returns from it (\<open>None\<close> when \<open>fopen\<close> fails) and the
  entries \<open>readdir\<close> returns from it (\<open>None\<close> when \<open>opendir\<close> fails). A line is
  the bytes \<open>getline\<close> stored, its newline included when the file has one there.
  A file or directory name that does not fit the array it is copied or formatted into
  is an error value of the model.

  The lemmas show that the in-place loop of \<open>removeSpaces\<close> computes the filter it is
  meant to, that \<open>lineCount\<close> counts every line exactly once in the row of the file's
  extension, how the comment flag moves, that \<open>listFiles\<close> keeps the number of
  processed files equal to the total of the file column, and that the walk counts the
  entries of the tree as the specification \<open>tally\<close> does, whenever the names and paths
  fit their arrays (\<open>fits_tree\<close>).
\<close>

section \<open>removeSpaces\<close>

datatype cloc_error = ReadPastBuffer | NameOverflow | PathOverflow | NullArgument

function removeSpaces_loop :: "char list \<Rightarrow> nat \<Rightarrow> nat \<Rightarrow> char list option" where
  "removeSpaces_loop str i count =
     (if length str \<le> i then None
      else if str ! i = nul then Some (str[count := nul])
      else if str ! i \<noteq> CHR '' '' \<and> str ! i \<noteq> tab
           then removeSpaces_loop (str[count := str ! i]) (Suc i) (Suc count)
           else removeSpaces_loop str (Suc i) count)"
  by pat_completeness auto

termination
  by (relation "measure (\<lambda>(str, i, count). length str - i)") auto

declare removeSpaces_loop.simps [simp del]

definition removeSpaces :: "char list \<Rightarrow> char list option" where
  "removeSpaces str = removeSpaces_loop str 0 0"

definition despace :: "cstring \<Rightarrow> cstring" where
  "despace s = filter (\<lambda>c. c \<noteq> CHR '' '' \<and> c \<noteq> tab) s"

section \<open>lineCount\<close>

type_synonym counts = "nat list list"

definition zero_counts :: counts where
  "zero_counts = [[0, 0, 0, 0], [0, 0, 0, 0], [0, 0, 0, 0], [0, 0, 0, 0]]"

definition bump :: "nat \<Rightarrow> nat \<Rightarrow> counts \<Rightarrow> counts" where
  "bump i j counts = counts[i := (counts ! i)[j := counts ! i ! j + 1]]"

definition strrchr :: "cstring \<Rightarrow> char \<Rightarrow> cstring option" where
  "strrchr s c = (if c \<in> set s then Some (c # rev (takeWhile (\<lambda>x. x \<noteq> c) (rev s))) else None)"

definition char_at :: "cstring \<Rightarrow> nat \<Rightarrow> char" where
  "char_at line i = (if i < length line then line ! i else nul)"

definition classify_py :: "cstring \<Rightarrow> counts \<times> bool \<Rightarrow> counts \<times> bool" where
  "classify_py line s =
     (case s of (counts, command) \<Rightarrow>
        if strlen line = 1 then (bump 0 1 counts, command)
        else if char_at line 0 = squote \<and> char_at line 1 = squote \<and> char_at line 2 = squote
          then (bump 0 2 counts, \<not> strstr_found line [squote, squote, squote])
        else if command
          then (bump 0 2 counts, \<not> strstr_found line [squote, squote, squote])
        else if char_at line 0 = dquote \<and> char_at line 1 = dquote \<and> char_at line 2 = dquote
          then (bump 0 2 counts, \<not> strstr_found line [dquote, dquote, dquote])
        else if command
          then (bump 0 2 counts, \<not> strstr_found line [dquote, dquote, dquote])
        else if char_at line 0 = CHR ''#'' then (bump 0 2 counts, command)
        else (bump 0 0 counts, command))"

definition classify_c :: "nat \<Rightarrow> cstring \<Rightarrow> counts \<times> bool \<Rightarrow> counts \<times> bool" where
  "classify_c row line s =
     (case s of (counts, command) \<Rightarrow>
        if strlen line = 1 then (bump row 1 counts, command)
        else if char_at line 0 = CHR ''/'' \<and> char_at line 1 = CHR ''*''
          then (bump row 2 counts, \<not> strstr_found line ''*/'')
        else if command
          then (bump row 2 counts, \<not> strstr_found line ''*/'')
        else if char_at line 0 = CHR ''/'' \<and> char_at line 1 = CHR ''/''
          then (bump row 2 counts, command)
        else (bump row 0 counts, command))"

definition classify_other :: "cstring \<Rightarrow> counts \<times> bool \<Rightarrow> counts \<times> bool" where
  "classify_other line s =
     (case s of (counts, command) \<Rightarrow>
        if strlen line = 1 then (bump 3 1 counts, command) else (bump 3 0 counts, command))"

definition classify_line :: "cstring option \<Rightarrow> cstring \<Rightarrow> counts \<times> bool \<Rightarrow> counts \<times> bool" where
  "classify_line ext line s =
     (case ext of
        Some e \<Rightarrow>
          if strcmp_eq e ''.py'' then classify_py line s
          else if strcmp_eq e ''.cpp'' then classify_c 1 line s
          else if strcmp_eq e ''.c'' then classify_c 2 line s
          else classify_other line s
      | None \<Rightarrow> classify_other line s)"

fun lineCount_loop ::
  "cstring option \<Rightarrow> char list list \<Rightarrow> counts \<times> bool \<Rightarrow> cloc_error + counts \<times> bool" where
  "lineCount_loop ext [] s = Inr s"
| "lineCount_loop ext (line # rest) s =
     (case removeSpaces (line @ [nul]) of
        None \<Rightarrow> Inl ReadPastBuffer
      | Some buf \<Rightarrow> lineCount_loop ext rest (classify_line ext (c_str buf) s))"

definition lineCount :: "counts \<Rightarrow> cstring \<Rightarrow> char list list option \<Rightarrow> cloc_error + counts" where
  "lineCount counts fileName fp =
     (case fp of
        None \<Rightarrow> Inr counts
      | Some lines \<Rightarrow>
          map_sum id fst (lineCount_loop (strrchr fileName CHR ''.'') lines (counts, False)))"

section \<open>listFiles\<close>

datatype fs_node =
  Node (d_type: nat) (file_lines: "char list list option")
    (dir_entries: "(cstring \<times> fs_node) list option")

record cloc_state =
  ignored_files :: nat
  processed_files :: nat
  counts :: counts

definition ext_row :: "cstring option \<Rightarrow> nat" where
  "ext_row ext =
     (case ext of
        Some e \<Rightarrow>
          if strcmp_eq e ''.py'' then 0
          else if strcmp_eq e ''.cpp'' then 1
          else if strcmp_eq e ''.c'' then 2
          else 3
      | None \<Rightarrow> 3)"

definition join_path :: "cstring \<Rightarrow> cstring \<Rightarrow> cstring" where
  "join_path dirname d_name = dirname @ ''/'' @ d_name"

function listFiles ::
    "cstring \<Rightarrow> (cstring \<times> fs_node) list option \<Rightarrow> cloc_state \<Rightarrow> cloc_error + cloc_state"
  and listFiles_loop ::
    "cstring \<Rightarrow> (cstring \<times> fs_node) list \<Rightarrow> cloc_state \<Rightarrow> cloc_error + cloc_state"
where
  "listFiles dirname dir st =
     (case dir of None \<Rightarrow> Inr st | Some ents \<Rightarrow> listFiles_loop dirname ents st)"
| "listFiles_loop dirname [] st = Inr st"
| "listFiles_loop dirname ((d_name, Node dt file sub) # rest) st =
     (if 256 < length d_name + 1 then Inl NameOverflow
      else if dt = 4 \<and> \<not> strcmp_eq d_name ''.'' \<and> \<not> strcmp_eq d_name ''..'' \<and>
              char_at d_name 0 \<noteq> CHR ''.''
      then (if 512 < length (join_path dirname d_name) + 1 then Inl PathOverflow
            else case listFiles (join_path dirname d_name) sub st of
                   Inl e \<Rightarrow> Inl e
                 | Inr st' \<Rightarrow> listFiles_loop dirname rest st')
      else if char_at d_name 0 \<noteq> CHR ''.''
      then (if 512 < length (join_path dirname d_name) + 1 then Inl PathOverflow
            else case lineCount
                        (bump (ext_row (strrchr d_name CHR ''.'')) 3 (counts st))
                        (join_path dirname d_name) file of
                   Inl e \<Rightarrow> Inl e
                 | Inr c \<Rightarrow>
                     listFiles_loop dirname rest
                       (st\<lparr>processed_files := processed_files st + 1, counts := c\<rparr>))
      else listFiles_loop dirname rest
             (if \<not> strcmp_eq d_name ''..'' \<and> \<not> strcmp_eq d_name ''.''
              then st\<lparr>ignored_files := ignored_files st + 1\<rparr> else st))"
  by pat_completeness auto

termination
  by (relation "measure (\<lambda>x. case x of
          Inl (dirname, dir, st) \<Rightarrow> size_option (size_list (size_prod (\<lambda>_. 0) size)) dir
        | Inr (dirname, ents, st) \<Rightarrow> size_list (size_prod (\<lambda>_. 0) size) ents)")
    auto

declare listFiles.simps [simp del] listFiles_loop.simps(2) [simp del]

section \<open>The cloc branch\<close>

definition total_counts :: "counts \<Rightarrow> nat list" where
  "total_counts c = map (\<lambda>j. sum_list (map (\<lambda>i. c ! i ! j) [0..<4])) [0..<4]"

definition builtin_cloc ::
  "cstring \<Rightarrow> (cstring \<Rightarrow> (cstring \<times> fs_node) list option) \<Rightarrow> command_fields \<Rightarrow>
     cloc_error + cloc_state \<times> nat list" where
  "builtin_cloc path fs command =
     (case args command ! 1 of
        None \<Rightarrow> Inl NullArgument
      | Some arg \<Rightarrow>
          if 512 < length path + 1 \<or> 1024 < length (join_path path arg) + 1 then Inl PathOverflow
          else map_sum id (\<lambda>st. (st, total_counts (counts st)))
                 (listFiles (join_path path arg) (fs (join_path path arg))
                    \<lparr>ignored_files = 0, processed_files = 0, counts = zero_counts\<rparr>))"

section \<open>The in-place loop computes the filter\<close>

lemma c_str_Cons: "c_str (c # s) = (if c = nul then [] else c # c_str s)"
  by (simp add: c_str_def)

lemma c_str_snoc_nul [simp]: "c_str (s @ [nul]) = c_str s"
  by (induction s) (simp_all add: c_str_def)

lemma despace_simps [simp]:
  "despace [] = []"
  "despace (c # s) = (if c \<noteq> CHR '' '' \<and> c \<noteq> tab then c # despace s else despace s)"
  by (simp_all add: despace_def)

lemma despace_append [simp]: "despace (a @ b) = despace a @ despace b"
  by (simp add: despace_def)

lemma despace_no_blank: "set (despace s) \<inter> {CHR '' '', tab} = {}"
  by (auto simp: despace_def)

lemma removeSpaces_loop_inv:
  assumes "count \<le> i" and "nul \<in> set (drop i str)" and "nul \<notin> set (take count str)"
  shows "\<exists>b. removeSpaces_loop str i count = Some b \<and> length b = length str \<and>
    c_str b = take count str @ despace (c_str (drop i str))"
  using assms
proof (induction str i count rule: removeSpaces_loop.induct)
  case (1 str i count)
  from "1.prems"(2) have i: "i < length str"
    by (cases "i < length str") auto
  then have d: "drop i str = str ! i # drop (Suc i) str"
    by (simp add: Cons_nth_drop_Suc)
  note unfold = removeSpaces_loop.simps [of str i count]
  show ?case
  proof (cases "str ! i = nul")
    case True
    from i "1.prems"(1) have "str[count := nul] = take count str @ nul # drop (Suc count) str"
      by (simp add: upd_conv_take_nth_drop)
    with "1.prems"(3) have "c_str (str[count := nul]) = take count str"
      by simp
    with True i d show ?thesis
      by (simp add: unfold c_str_Cons)
  next
    case False
    with d "1.prems"(2) have n: "nul \<in> set (drop (Suc i) str)"
      by (metis set_ConsD)
    from False d have c: "c_str (drop i str) = str ! i # c_str (drop (Suc i) str)"
      by (simp add: c_str_Cons)
    show ?thesis
    proof (cases "str ! i \<noteq> CHR '' '' \<and> str ! i \<noteq> tab")
      case True
      let ?s = "str[count := str ! i]"
      from "1.prems"(1) have dr: "drop (Suc i) ?s = drop (Suc i) str"
        by simp
      from i "1.prems"(1) have tk: "take (Suc count) ?s = take count str @ [str ! i]"
        by (simp add: take_Suc_conv_app_nth)
      with False "1.prems"(3) have "nul \<notin> set (take (Suc count) ?s)"
        by simp
      with "1.IH"(1) [OF _ False True] i "1.prems"(1) n dr
      obtain b where "removeSpaces_loop ?s (Suc i) (Suc count) = Some b" and "length b = length str"
        and "c_str b = take (Suc count) ?s @ despace (c_str (drop (Suc i) str))"
        by auto
      with i False True show ?thesis
        by (simp add: unfold tk c)
    next
      case blank: False
      from "1.IH"(2) [OF _ False blank] i "1.prems" n
      obtain b where "removeSpaces_loop str (Suc i) count = Some b" and "length b = length str"
        and "c_str b = take count str @ despace (c_str (drop (Suc i) str))"
        by auto
      with i False blank show ?thesis
        by (auto simp: unfold c)
    qed
  qed
qed

lemma removeSpaces_loop_no_nul:
  "nul \<notin> set (drop i str) \<Longrightarrow> removeSpaces_loop str i count = None"
proof (induction str i count rule: removeSpaces_loop.induct)
  case (1 str i count)
  show ?case
  proof (cases "i < length str")
    case True
    then have d: "drop i str = str ! i # drop (Suc i) str"
      by (simp add: Cons_nth_drop_Suc)
    with "1.prems" have n: "str ! i \<noteq> nul" "nul \<notin> set (drop (Suc i) str)"
      by auto
    have "set (drop (Suc i) (str[count := str ! i])) \<subseteq> insert (str ! i) (set (drop (Suc i) str))"
    proof (cases "Suc i \<le> count")
      case True
      then show ?thesis
        using set_update_subset_insert [of "drop (Suc i) str" "count - Suc i" "str ! i"]
        by (simp add: drop_update_swap)
    qed (simp add: drop_update_cancel not_le subset_insertI)
    with n have "nul \<notin> set (drop (Suc i) (str[count := str ! i]))"
      by auto
    with True n "1.IH" show ?thesis
      by (simp add: removeSpaces_loop.simps [of str i count])
  qed (simp add: removeSpaces_loop.simps [of str i count])
qed

lemma removeSpaces_getline:
  "\<exists>b. removeSpaces (line @ [nul]) = Some b \<and> c_str b = despace (c_str line)"
  using removeSpaces_loop_inv [of 0 0 "line @ [nul]"] by (auto simp: removeSpaces_def)

text \<open>
  C12. \<open>removeSpaces\<close> is the filter it is meant to be: on a buffer that holds a NUL,
  the in-place loop with its read index and its write index ends inside the buffer,
  keeps the size of the buffer, and leaves as its string the string the buffer held with
  every blank and tab removed.
\<close>

theorem removeSpaces_filter:
  assumes "nul \<in> set str"
  shows "\<exists>b. removeSpaces str = Some b \<and> length b = length str \<and> c_str b = despace (c_str str)"
  using removeSpaces_loop_inv [of 0 0 str] assms by (simp add: removeSpaces_def)

theorem removeSpaces_filter_witness:
  "nul \<in> set (''a b'' @ [tab, CHR ''c'', nul, CHR ''x'']) \<and>
   removeSpaces (''a b'' @ [tab, CHR ''c'', nul, CHR ''x'']) =
     Some (''abc'' @ [nul, CHR ''c'', nul, CHR ''x'']) \<and>
   despace (c_str (''a b'' @ [tab, CHR ''c'', nul, CHR ''x''])) = ''abc''"
proof -
  have n: "nul \<in> set (''a b'' @ [tab, CHR ''c'', nul, CHR ''x''])"
    by simp
  have r: "removeSpaces (''a b'' @ [tab, CHR ''c'', nul, CHR ''x'']) =
      Some (''abc'' @ [nul, CHR ''c'', nul, CHR ''x''])"
    by code_simp
  from removeSpaces_filter [OF n] n r show ?thesis
    by (auto simp: c_str_Cons)
qed

section \<open>Counting lines\<close>

definition wf_counts :: "counts \<Rightarrow> bool" where
  "wf_counts c \<longleftrightarrow> length c = 4 \<and> list_all (\<lambda>r. length r = 4) c"

definition lines_of :: "nat \<Rightarrow> counts \<Rightarrow> nat" where
  "lines_of r c = c ! r ! 0 + c ! r ! 1 + c ! r ! 2"

definition counted :: "nat \<Rightarrow> counts \<Rightarrow> nat \<Rightarrow> counts \<Rightarrow> bool" where
  "counted row c n c' \<longleftrightarrow>
     wf_counts c' \<and>
     list_all (\<lambda>r. lines_of r c' = lines_of r c + (if r = row then n else 0) \<and>
                    c' ! r ! 3 = c ! r ! 3) [0..<4]"

lemma wf_countsD:
  assumes "wf_counts c"
  shows "length c = 4" and "r < 4 \<Longrightarrow> length (c ! r) = 4"
  using assms by (auto simp: wf_counts_def list_all_length)

lemma wf_zero_counts [simp]: "wf_counts zero_counts"
  by (simp add: wf_counts_def zero_counts_def)

lemma wf_bump [simp]: "wf_counts c \<Longrightarrow> wf_counts (bump i j c)"
  by (cases "i < length c") (auto simp: wf_counts_def bump_def list_all_length nth_list_update)

lemma bump_nth:
  assumes "wf_counts c" and "i < 4" and "j < 4" and "r < 4" and "k < 4"
  shows "bump i j c ! r ! k = (if r = i \<and> k = j then c ! i ! j + 1 else c ! r ! k)"
  using assms wf_countsD [OF assms(1)] by (simp add: bump_def nth_list_update)

lemma ext_row_less [simp]: "ext_row ext < 4"
  by (simp add: ext_row_def split: option.split)

lemma classify_line_bump:
  "fst (classify_line ext line (c, b)) \<in>
     {bump (ext_row ext) 0 c, bump (ext_row ext) 1 c, bump (ext_row ext) 2 c}"
  by (simp add: classify_line_def ext_row_def classify_py_def classify_c_def classify_other_def
      split: option.split)

lemma counted_refl: "wf_counts c \<Longrightarrow> counted row c 0 c"
  by (simp add: counted_def list_all_iff)

lemma counted_bump_line:
  assumes "counted row c n c'" and "row < 4" and "j < 3"
  shows "counted row c (Suc n) (bump row j c')"
proof -
  from assms(1) have w: "wf_counts c'"
    by (simp add: counted_def)
  from assms(3) consider "j = 0" | "j = 1" | "j = 2"
    by linarith
  then have "lines_of r (bump row j c') = lines_of r c' + (if r = row then 1 else 0) \<and>
      bump row j c' ! r ! 3 = c' ! r ! 3" if "r < 4" for r
    using that assms(2) by cases (simp_all add: lines_of_def bump_nth [OF w])
  with assms(1) w show ?thesis
    by (simp add: counted_def list_all_iff)
qed

lemma counted_bump_file:
  assumes "wf_counts c" and "row < 4"
  shows "lines_of r (bump row 3 c) = lines_of r c"
  using assms
  by (cases "r < 4") (simp_all add: lines_of_def bump_nth bump_def wf_countsD nth_list_update)

lemma counted_classify:
  assumes "counted (ext_row ext) c n c'"
  shows "counted (ext_row ext) c (Suc n) (fst (classify_line ext line (c', b)))"
  using classify_line_bump [of ext line c' b] assms
  by (auto intro!: counted_bump_line)

lemma lineCount_loop_counted:
  assumes "counted (ext_row ext) c n c1"
  shows "\<exists>c' b'. lineCount_loop ext lines (c1, b) = Inr (c', b') \<and>
    counted (ext_row ext) c (n + length lines) c'"
  using assms
proof (induction lines arbitrary: c1 b n)
  case (Cons line lines)
  obtain buf where buf: "removeSpaces (line @ [nul]) = Some buf" "c_str buf = despace (c_str line)"
    using removeSpaces_getline by blast
  obtain c2 b2 where s: "classify_line ext (despace (c_str line)) (c1, b) = (c2, b2)"
    by (cases "classify_line ext (despace (c_str line)) (c1, b)")
  with counted_classify [OF Cons.prems, of "despace (c_str line)" b]
  have "counted (ext_row ext) c (Suc n) c2"
    by simp
  from Cons.IH [OF this, of b2] buf s show ?case
    by simp
qed simp

text \<open>
  C13. \<open>lineCount\<close> counts every line of the file exactly once: on a table of four rows
  of four counters and a file that opens, it returns a table of the same shape in which
  the code, blank and comment counters of the row of the file's extension have grown by
  the number of lines together, and no other row and no file counter has changed.
\<close>

theorem lineCount_counts_every_line:
  assumes "wf_counts c"
  shows "\<exists>c'. lineCount c fileName (Some lines) = Inr c' \<and>
    counted (ext_row (strrchr fileName CHR ''.'')) c (length lines) c'"
  using lineCount_loop_counted [OF counted_refl [OF assms], of "strrchr fileName CHR ''.''" lines False]
  by (auto simp: lineCount_def)

theorem lineCount_counts_every_line_witness:
  "wf_counts zero_counts \<and>
   lineCount zero_counts ''a/main.c'' (Some [''int x;  // c'' @ [newline], [newline], ''// c'' @ [newline]]) =
     Inr [[0, 0, 0, 0], [0, 0, 0, 0], [1, 1, 1, 0], [0, 0, 0, 0]] \<and>
   counted 2 zero_counts 3 [[0, 0, 0, 0], [0, 0, 0, 0], [1, 1, 1, 0], [0, 0, 0, 0]]"
proof -
  have e: "ext_row (strrchr ''a/main.c'' CHR ''.'') = 2"
    by code_simp
  have r: "lineCount zero_counts ''a/main.c''
      (Some [''int x;  // c'' @ [newline], [newline], ''// c'' @ [newline]]) =
      Inr [[0, 0, 0, 0], [0, 0, 0, 0], [1, 1, 1, 0], [0, 0, 0, 0]]"
    by code_simp
  from lineCount_counts_every_line [OF wf_zero_counts, of "''a/main.c''"
      "[''int x;  // c'' @ [newline], [newline], ''// c'' @ [newline]]"] r e
  show ?thesis
    by (simp add: numeral_3_eq_3)
qed

section \<open>The comment flag\<close>

lemma triple_prefix:
  assumes "char_at line 0 = q" and "char_at line 1 = q" and "char_at line 2 = q" and "q \<noteq> nul"
  shows "strstr_found line [q, q, q]"
proof -
  from assms obtain rest where "line = q # q # q # rest"
    by (cases line; cases "tl line"; cases "tl (tl line)") (auto simp: char_at_def split: if_splits)
  then show ?thesis
    by simp
qed

lemma classify_py_flag: "classify_py line (c, False) = (fst (classify_py line (c, False)), False)"
  by (auto simp: classify_py_def triple_prefix)

lemma bump_eq_iff:
  assumes "wf_counts c" and "r < 4" and "j < 4" and "k < 4"
  shows "bump r j c = bump r k c \<longleftrightarrow> j = k"
proof
  assume "bump r j c = bump r k c"
  then have "bump r j c ! r ! j = bump r k c ! r ! j"
    by simp
  with assms show "j = k"
    by (simp add: bump_nth split: if_splits)
qed simp

text \<open>
  In a Python file the comment flag is never left set: a line that opens a
  triple-quoted block always contains the three quotes the code then searches for, so
  the flag is cleared on the line that set it. Every line of a Python file is therefore
  classified as if it stood alone, and the lines inside a block that spans several lines
  are counted as code.
\<close>

theorem python_block_not_tracked:
  "lineCount_loop (Some ''.py'') lines (c, False) =
     Inr (foldl (\<lambda>c line. fst (classify_py (despace (c_str line)) (c, False))) c lines, False)"
proof (induction lines arbitrary: c)
  case (Cons line lines)
  obtain buf where buf: "removeSpaces (line @ [nul]) = Some buf" "c_str buf = despace (c_str line)"
    using removeSpaces_getline by blast
  have "classify_line (Some ''.py'') (despace (c_str line)) (c, False) =
      (fst (classify_py (despace (c_str line)) (c, False)), False)"
    using classify_py_flag by (simp add: classify_line_def)
  with buf Cons.IH show ?case
    by simp
qed simp

text \<open>
  In a C file the comment flag is tracked across lines: once a block comment is
  open, every following line that is not blank and does not contain the closing
  \<open>*/\<close> is counted as a comment line and leaves the block open.
\<close>

theorem c_block_comment_tracked:
  assumes "\<forall>line \<in> set body. length (despace (c_str line)) \<noteq> 1 \<and>
    \<not> strstr_found (despace (c_str line)) ''*/''"
  shows "lineCount_loop (Some ''.c'') body (c, True) = Inr ((bump 2 2 ^^ length body) c, True)"
  using assms
proof (induction body arbitrary: c)
  case (Cons line body)
  obtain buf where buf: "removeSpaces (line @ [nul]) = Some buf" "c_str buf = despace (c_str line)"
    using removeSpaces_getline by blast
  from Cons.prems have "classify_line (Some ''.c'') (despace (c_str line)) (c, True) =
      (bump 2 2 c, True)"
    by (simp add: classify_line_def classify_c_def strlen_def)
  with buf Cons.IH [of "bump 2 2 c"] Cons.prems show ?case
    by (simp add: funpow_swap1)
qed simp

theorem c_block_comment_tracked_witness:
  "lineCount_loop (Some ''.c'') [''  still open'' @ [newline], ''x = 1;'' @ [newline]]
     (zero_counts, True) = Inr ([[0, 0, 0, 0], [0, 0, 0, 0], [0, 0, 2, 0], [0, 0, 0, 0]], True)"
proof -
  have h: "\<forall>line \<in> set [''  still open'' @ [newline], ''x = 1;'' @ [newline]].
      length (despace (c_str line)) \<noteq> 1 \<and> \<not> strstr_found (despace (c_str line)) ''*/''"
    by code_simp
  have b: "(bump 2 2 ^^ length [''  still open'' @ [newline], ''x = 1;'' @ [newline]]) zero_counts =
      [[0, 0, 0, 0], [0, 0, 0, 0], [0, 0, 2, 0], [0, 0, 0, 0]]"
    by (simp add: bump_def zero_counts_def)
  from c_block_comment_tracked [OF h, of zero_counts] show ?thesis
    unfolding b by simp
qed

text \<open>
  The test for a blank line is that the line has exactly one character left after
  blanks and tabs are removed: a line is counted as blank exactly then, whatever the
  extension and the comment flag. So the newline alone is blank, but so is a last line
  \<open>}\<close> that has no newline, while a last line of blanks only, with no newline, is not.
\<close>

theorem blank_iff_one_character:
  assumes "wf_counts c"
  shows "fst (classify_line ext line (c, b)) = bump (ext_row ext) 1 c \<longleftrightarrow> length line = 1"
proof (cases "length line = 1")
  case True
  then show ?thesis
    by (simp add: classify_line_def ext_row_def classify_py_def classify_c_def classify_other_def
        strlen_def split: option.split)
next
  case False
  then have "fst (classify_line ext line (c, b)) \<in> {bump (ext_row ext) 0 c, bump (ext_row ext) 2 c}"
    by (simp add: classify_line_def ext_row_def classify_py_def classify_c_def classify_other_def
        strlen_def split: option.split)
  with False bump_eq_iff [OF assms ext_row_less, of 0 1 ext] bump_eq_iff [OF assms ext_row_less, of 2 1 ext]
  show ?thesis
    by auto
qed

theorem blank_iff_one_character_witness:
  "wf_counts zero_counts \<and>
   fst (classify_line (Some ''.c'') ''}'' (zero_counts, False)) = bump 2 1 zero_counts \<and>
   fst (classify_line (Some ''.c'') (despace ''   '') (zero_counts, False)) \<noteq> bump 2 1 zero_counts"
proof -
  have e: "ext_row (Some ''.c'') = 2"
    by (simp add: ext_row_def)
  from blank_iff_one_character [OF wf_zero_counts, of "Some ''.c''" "''}''" False]
    blank_iff_one_character [OF wf_zero_counts, of "Some ''.c''" "despace ''   ''" False]
  show ?thesis
    unfolding e by simp
qed

section \<open>The extension of a path\<close>

lemma strrchr_append_mem: "c \<in> set b \<Longrightarrow> strrchr (a @ b) c = strrchr b c"
  by (simp add: strrchr_def takeWhile_append1 [of c "rev b"])

lemma strrchr_append_not_mem:
  assumes "c \<notin> set b" and "strrchr (a @ b) c = Some e"
  shows "set b \<subseteq> set e"
proof -
  have "takeWhile (\<lambda>x. x \<noteq> c) (rev b @ rev a) = rev b @ takeWhile (\<lambda>x. x \<noteq> c) (rev a)"
    using assms(1) by (intro takeWhile_append2) auto
  with assms show ?thesis
    by (auto simp: strrchr_def split: if_splits)
qed

lemma ext_with_slash:
  assumes "CHR ''/'' \<in> set e"
  shows "ext_row (Some e) = 3" and "classify_line (Some e) = classify_other"
  using assms by (auto simp: ext_row_def classify_line_def fun_eq_iff)

text \<open>
  \<open>listFiles\<close> takes the extension from the name of the directory entry and
  \<open>lineCount\<close> takes it from the whole path, directory included; the two always
  agree on the row of the table and on the classification of lines, also when only the
  directory has a dot in its name.
\<close>

theorem extension_of_path:
  "ext_row (strrchr (join_path dirname d_name) CHR ''.'') = ext_row (strrchr d_name CHR ''.'') \<and>
   classify_line (strrchr (join_path dirname d_name) CHR ''.'') =
     classify_line (strrchr d_name CHR ''.'')"
proof (cases "CHR ''.'' \<in> set d_name")
  case True
  then have "strrchr (join_path dirname d_name) CHR ''.'' = strrchr d_name CHR ''.''"
    using strrchr_append_mem [of "CHR ''.''" d_name "dirname @ ''/''"] by (simp add: join_path_def)
  then show ?thesis
    by simp
next
  case False
  then have n: "strrchr d_name CHR ''.'' = None"
    by (simp add: strrchr_def)
  show ?thesis
  proof (cases "strrchr (join_path dirname d_name) CHR ''.''")
    case None
    with n show ?thesis by simp
  next
    case (Some e)
    with False have "set (''/'' @ d_name) \<subseteq> set e"
      using strrchr_append_not_mem [of "CHR ''.''" "''/'' @ d_name" dirname e]
      by (simp add: join_path_def)
    then have "CHR ''/'' \<in> set e"
      by auto
    from ext_with_slash [OF this] n Some show ?thesis
      by (simp add: ext_row_def classify_line_def fun_eq_iff)
  qed
qed

section \<open>Accounting of files\<close>

definition files_total :: "counts \<Rightarrow> nat" where
  "files_total c = sum_list (map (\<lambda>r. c ! r ! 3) [0..<4])"

definition wf_state :: "cloc_state \<Rightarrow> bool" where
  "wf_state st \<longleftrightarrow> wf_counts (counts st) \<and> processed_files st = files_total (counts st)"

lemma upt_4: "[0..<4] = [0, 1, 2, 3]"
  by (simp add: upt_rec)

lemma files_total_bump:
  assumes "wf_counts c" and "row < 4"
  shows "files_total (bump row 3 c) = files_total c + 1"
proof -
  from assms(2) consider "row = 0" | "row = 1" | "row = 2" | "row = 3"
    by linarith
  then show ?thesis
    by cases (simp_all add: files_total_def upt_4 bump_nth [OF assms(1)])
qed

lemma counted_files_total: "counted row c n c' \<Longrightarrow> files_total c' = files_total c"
  by (simp add: counted_def files_total_def upt_4)

lemma lineCount_files:
  assumes "wf_counts c"
  shows "\<exists>c'. lineCount c fileName fp = Inr c' \<and> wf_counts c' \<and> files_total c' = files_total c"
proof (cases fp)
  case None
  with assms show ?thesis by (simp add: lineCount_def)
next
  case (Some lines)
  from lineCount_loop_counted [OF counted_refl [OF assms], of "strrchr fileName CHR ''.''" lines False]
  show ?thesis
    by (auto simp: Some lineCount_def counted_files_total) (simp add: counted_def)
qed

lemma wf_state_file:
  assumes "wf_state st" and "row < 4" and "lineCount (bump row 3 (counts st)) fileName fp = Inr c"
  shows "wf_state (st\<lparr>processed_files := processed_files st + 1, counts := c\<rparr>)"
proof -
  from assms(1) have w: "wf_counts (bump row 3 (counts st))"
    by (simp add: wf_state_def)
  from lineCount_files [OF w, of fileName fp] assms show ?thesis
    by (auto simp: wf_state_def files_total_bump)
qed

lemma wf_state_ignored [simp]: "wf_state (st\<lparr>ignored_files := n\<rparr>) = wf_state st"
  by (simp add: wf_state_def)

lemma listFiles_wf_state:
  "wf_state st \<Longrightarrow> listFiles dirname dir st = Inr st' \<Longrightarrow> wf_state st'"
  "wf_state st \<Longrightarrow> listFiles_loop dirname ents st = Inr st' \<Longrightarrow> wf_state st'"
proof (induction dirname dir st and dirname ents st arbitrary: st' and st'
    rule: listFiles_listFiles_loop.induct)
  case (1 dirname dir st)
  then show ?case
    by (cases dir) (auto simp: listFiles.simps)
next
  case (2 dirname st)
  then show ?case
    by simp
next
  case (3 dirname d_name dt fl sub rest st)
  note unfold = listFiles_loop.simps(2) [of dirname d_name dt fl sub rest st]
  note wf_state_file [OF "3.prems"(1) ext_row_less, intro]
  show ?case
  proof (cases "dt = 4 \<and> \<not> strcmp_eq d_name ''.'' \<and> \<not> strcmp_eq d_name ''..'' \<and>
      char_at d_name 0 \<noteq> CHR ''.''")
    case True
    note run = "3.prems"(2) [unfolded unfold]
    from run True have a: "\<not> 256 < length d_name + 1"
      and b: "\<not> 512 < length (join_path dirname d_name) + 1"
      by (auto split: if_splits)
    with run True obtain st1
      where s1: "listFiles (join_path dirname d_name) sub st = Inr st1"
        and s2: "listFiles_loop dirname rest st1 = Inr st'"
      by (auto split: sum.splits)
    from "3.IH"(1) a True b "3.prems"(1) s1 have "wf_state st1"
      by blast
    with "3.IH"(2) a True b s1 s2 show ?thesis
      by blast
  next
    case False
    with "3.prems"(1) "3.prems"(2) [unfolded unfold] show ?thesis
      by (auto split: if_splits sum.splits intro: "3.IH")
  qed
qed

lemma total_counts_files: "total_counts c ! 3 = files_total c"
  by (simp add: total_counts_def files_total_def upt_4)

lemma wf_state_initial:
  "wf_state \<lparr>ignored_files = 0, processed_files = 0, counts = zero_counts\<rparr>"
  by (simp add: wf_state_def files_total_def upt_4 zero_counts_def wf_counts_def)

text \<open>
  The report of \<open>cloc\<close> adds up: whenever the walk over the tree returns, the
  number printed as processed files is the number of files in the total line, the sum of
  the file counters of the four rows, and the table still has its four rows of four
  counters.
\<close>

theorem cloc_files_add_up:
  assumes "builtin_cloc path fs command = Inr (st, totals)"
  shows "processed_files st = totals ! 3 \<and> totals = total_counts (counts st) \<and>
    wf_counts (counts st)"
proof -
  from assms obtain arg where arg: "args command ! 1 = Some arg"
    by (cases "args command ! 1") (simp_all add: builtin_cloc_def)
  with assms have "listFiles (join_path path arg) (fs (join_path path arg))
      \<lparr>ignored_files = 0, processed_files = 0, counts = zero_counts\<rparr> = Inr st"
    and t: "totals = total_counts (counts st)"
    by (auto simp: builtin_cloc_def map_sum_def split: if_splits sum.splits)
  with listFiles_wf_state(1) [OF wf_state_initial] have "wf_state st"
    by blast
  with t show ?thesis
    by (simp add: wf_state_def total_counts_files)
qed

theorem cloc_files_add_up_witness:
  "builtin_cloc ''/w'' (\<lambda>p. if p = ''/w/src'' then Some
     [(''.'', Node 4 None None), (''..'', Node 4 None None), (''.git'', Node 4 None (Some [])),
      (''a.py'', Node 8 (Some [''x = 1'' @ [newline], [newline]]) None),
      (''sub'', Node 4 None (Some [(''b.c'', Node 8 (Some [''/* c */'' @ [newline]]) None)])),
      (''README'', Node 8 None None)] else None)
     \<lparr>name = ''cloc'', background = False, auto_complete = False, arg_count = 3,
      args = [Some ''cloc'', Some ''src'', None], redirects = [Null, Null, Null]\<rparr> =
   Inr (\<lparr>ignored_files = 1, processed_files = 3,
          counts = [[1, 1, 0, 1], [0, 0, 0, 0], [0, 0, 1, 1], [0, 0, 0, 1]]\<rparr>, [1, 1, 1, 3])"
proof -
  let ?st = "\<lparr>ignored_files = 1, processed_files = 3,
          counts = [[1, 1, 0, 1], [0, 0, 0, 0], [0, 0, 1, 1], [0, 0, 0, 1]]\<rparr>"
  have r: "builtin_cloc ''/w'' (\<lambda>p. if p = ''/w/src'' then Some
     [(''.'', Node 4 None None), (''..'', Node 4 None None), (''.git'', Node 4 None (Some [])),
      (''a.py'', Node 8 (Some [''x = 1'' @ [newline], [newline]]) None),
      (''sub'', Node 4 None (Some [(''b.c'', Node 8 (Some [''/* c */'' @ [newline]]) None)])),
      (''README'', Node 8 None None)] else None)
     \<lparr>name = ''cloc'', background = False, auto_complete = False, arg_count = 3,
      args = [Some ''cloc'', Some ''src'', None], redirects = [Null, Null, Null]\<rparr> =
   Inr (?st, [1, 1, 1, 3])"
    by code_simp
  from cloc_files_add_up [OF r] r show ?thesis
    by simp
qed

section \<open>The walk over the tree\<close>

definition hidden :: "cstring \<Rightarrow> bool" where
  "hidden d_name \<longleftrightarrow> char_at d_name 0 = CHR ''.''"

function tally :: "(cstring \<times> fs_node) list option \<Rightarrow> nat \<times> nat"
  and tally_list :: "(cstring \<times> fs_node) list \<Rightarrow> nat \<times> nat"
where
  "tally dir = (case dir of None \<Rightarrow> (0, 0) | Some ents \<Rightarrow> tally_list ents)"
| "tally_list [] = (0, 0)"
| "tally_list ((d_name, Node dt file sub) # rest) =
     (if hidden d_name
      then (fst (tally_list rest),
            (if d_name = ''.'' \<or> d_name = ''..'' then 0 else 1) + snd (tally_list rest))
      else if dt = 4
      then (fst (tally sub) + fst (tally_list rest), snd (tally sub) + snd (tally_list rest))
      else (1 + fst (tally_list rest), snd (tally_list rest)))"
  by pat_completeness auto

termination
  by (relation "measure (\<lambda>x. case x of
          Inl dir \<Rightarrow> size_option (size_list (size_prod (\<lambda>_. 0) size)) dir
        | Inr ents \<Rightarrow> size_list (size_prod (\<lambda>_. 0) size) ents)")
    auto

function fits_tree :: "cstring \<Rightarrow> (cstring \<times> fs_node) list option \<Rightarrow> bool"
  and fits_list :: "cstring \<Rightarrow> (cstring \<times> fs_node) list \<Rightarrow> bool"
where
  "fits_tree dirname dir = (case dir of None \<Rightarrow> True | Some ents \<Rightarrow> fits_list dirname ents)"
| "fits_list dirname [] = True"
| "fits_list dirname ((d_name, Node dt file sub) # rest) =
     (length d_name < 256 \<and>
      (hidden d_name \<or>
         length (join_path dirname d_name) < 512 \<and>
         (dt \<noteq> 4 \<or> fits_tree (join_path dirname d_name) sub)) \<and>
      fits_list dirname rest)"
  by pat_completeness auto

termination
  by (relation "measure (\<lambda>x. case x of
          Inl (dirname, dir) \<Rightarrow> size_option (size_list (size_prod (\<lambda>_. 0) size)) dir
        | Inr (dirname, ents) \<Rightarrow> size_list (size_prod (\<lambda>_. 0) size) ents)")
    auto

declare tally.simps [simp del] fits_tree.simps [simp del]

lemma lineCount_returns: "\<exists>c'. lineCount c fileName fp = Inr c'"
proof -
  have "\<exists>r. lineCount_loop ext lines s = Inr r" for ext lines s
  proof (induction lines arbitrary: s)
    case (Cons line lines)
    obtain buf where "removeSpaces (line @ [nul]) = Some buf"
      using removeSpaces_getline by blast
    with Cons.IH show ?case
      by simp
  qed simp
  note loop = this
  show ?thesis
  proof (cases fp)
    case (Some lines)
    from loop [of "strrchr fileName CHR ''.''" lines "(c, False)"] obtain r
      where "lineCount_loop (strrchr fileName CHR ''.'') lines (c, False) = Inr r"
      by blast
    with Some show ?thesis
      by (simp add: lineCount_def)
  qed (simp add: lineCount_def)
qed

lemma hidden_dots [simp]: "hidden ''.''" "hidden ''..''"
  by (simp_all add: hidden_def char_at_def)

lemma listFiles_tally:
  "fits_tree dirname dir \<Longrightarrow>
     \<exists>st'. listFiles dirname dir st = Inr st' \<and>
       processed_files st' = processed_files st + fst (tally dir) \<and>
       ignored_files st' = ignored_files st + snd (tally dir)"
  "fits_list dirname ents \<Longrightarrow>
     \<exists>st'. listFiles_loop dirname ents st = Inr st' \<and>
       processed_files st' = processed_files st + fst (tally_list ents) \<and>
       ignored_files st' = ignored_files st + snd (tally_list ents)"
proof (induction dirname dir st and dirname ents st rule: listFiles_listFiles_loop.induct)
  case (1 dirname dir st)
  then show ?case
    by (cases dir) (auto simp: listFiles.simps tally.simps fits_tree.simps)
next
  case (2 dirname st)
  then show ?case
    by simp
next
  case (3 dirname d_name dt fl sub rest st)
  note unfold = listFiles_loop.simps(2) [of dirname d_name dt fl sub rest st]
  from "3.prems" have n: "\<not> 256 < length d_name + 1" and r: "fits_list dirname rest"
    by simp_all
  consider (is_dir) "dt = 4" "\<not> hidden d_name" | (is_file) "dt \<noteq> 4" "\<not> hidden d_name"
    | (is_dot) "hidden d_name"
    by blast
  then show ?case
  proof cases
    case is_dir
    hence c: "dt = 4 \<and> \<not> strcmp_eq d_name ''.'' \<and> \<not> strcmp_eq d_name ''..'' \<and>
        char_at d_name 0 \<noteq> CHR ''.''"
      by (auto simp: hidden_def char_at_def)
    from "3.prems" is_dir have p: "\<not> 512 < length (join_path dirname d_name) + 1"
      and f: "fits_tree (join_path dirname d_name) sub"
      by simp_all
    from "3.IH"(1) [OF n c p f] obtain st1 where
      s1: "listFiles (join_path dirname d_name) sub st = Inr st1"
      "processed_files st1 = processed_files st + fst (tally sub)"
      "ignored_files st1 = ignored_files st + snd (tally sub)"
      by blast
    from "3.IH"(2) [OF n c p s1(1) r] s1 c n p is_dir show ?thesis
      unfolding unfold by auto
  next
    case is_file
    hence c: "\<not> (dt = 4 \<and> \<not> strcmp_eq d_name ''.'' \<and> \<not> strcmp_eq d_name ''..'' \<and>
        char_at d_name 0 \<noteq> CHR ''.'')" and h: "char_at d_name 0 \<noteq> CHR ''.''"
      by (auto simp: hidden_def)
    from "3.prems" is_file have p: "\<not> 512 < length (join_path dirname d_name) + 1"
      by simp
    obtain c' where l: "lineCount (bump (ext_row (strrchr d_name CHR ''.'')) 3 (counts st))
        (join_path dirname d_name) fl = Inr c'"
      using lineCount_returns by blast
    from "3.IH"(3) [OF n c h p l r] l c h n p is_file show ?thesis
      unfolding unfold by auto
  next
    case is_dot
    hence c: "\<not> (dt = 4 \<and> \<not> strcmp_eq d_name ''.'' \<and> \<not> strcmp_eq d_name ''..'' \<and>
        char_at d_name 0 \<noteq> CHR ''.'')" and h: "\<not> char_at d_name 0 \<noteq> CHR ''.''"
      by (auto simp: hidden_def)
    from "3.IH"(4) [OF n c h r] c h n is_dot show ?thesis
      unfolding unfold by auto
  qed
qed

text \<open>
  C14. \<open>cloc\<close> visits every entry of the tree once: when the argument is there, the
  paths fit their arrays and every name and every joined path of the walk fits too
  (\<open>fits_tree\<close>), the branch returns, the number of processed files is the number of
  entries below the directory that are no directories and whose name does not start with
  a dot, in directories whose names do not start with a dot, the number of ignored files
  is the number of entries (files or directories) whose name starts with a dot, \<open>.\<close> and
  \<open>..\<close> apart, and the file counter of the total line is the number of processed files.
\<close>

theorem cloc_counts_tree:
  assumes "args command ! 1 = Some arg" and "length path < 512"
    and "length (join_path path arg) < 1024"
    and "fits_tree (join_path path arg) (fs (join_path path arg))"
  shows "\<exists>st totals. builtin_cloc path fs command = Inr (st, totals) \<and>
    processed_files st = fst (tally (fs (join_path path arg))) \<and>
    ignored_files st = snd (tally (fs (join_path path arg))) \<and>
    totals ! 3 = processed_files st"
proof -
  let ?st0 = "\<lparr>ignored_files = 0, processed_files = 0, counts = zero_counts\<rparr>"
  from listFiles_tally(1) [OF assms(4), of ?st0] obtain st
    where st: "listFiles (join_path path arg) (fs (join_path path arg)) ?st0 = Inr st"
      "processed_files st = fst (tally (fs (join_path path arg)))"
      "ignored_files st = snd (tally (fs (join_path path arg)))"
    by auto
  from listFiles_wf_state(1) [OF wf_state_initial st(1)] have "wf_state st" .
  with st assms(1-3) show ?thesis
    by (simp add: builtin_cloc_def wf_state_def total_counts_files)
qed

theorem cloc_counts_tree_witness:
  "\<exists>st totals. builtin_cloc ''/w'' (\<lambda>p. if p = ''/w/src'' then Some
     [(''.'', Node 4 None None), (''..'', Node 4 None None), (''.git'', Node 4 None (Some [])),
      (''a.py'', Node 8 (Some [''x = 1'' @ [newline], [newline]]) None),
      (''sub'', Node 4 None (Some [(''b.c'', Node 8 (Some [''/* c */'' @ [newline]]) None)])),
      (''README'', Node 8 None None)] else None)
     \<lparr>name = ''cloc'', background = False, auto_complete = False, arg_count = 3,
      args = [Some ''cloc'', Some ''src'', None], redirects = [Null, Null, Null]\<rparr> =
       Inr (st, totals) \<and>
     processed_files st = 3 \<and> ignored_files st = 1 \<and> totals ! 3 = 3"
proof -
  define tree where "tree = Some
     [(''.'', Node 4 None None), (''..'', Node 4 None None), (''.git'', Node 4 None (Some [])),
      (''a.py'', Node 8 (Some [''x = 1'' @ [newline], [newline]]) None),
      (''sub'', Node 4 None (Some [(''b.c'', Node 8 (Some [''/* c */'' @ [newline]]) None)])),
      (''README'', Node 8 None None)]"
  define fs where "fs = (\<lambda>p. if p = ''/w/src'' then tree else None)"
  define command where "command = \<lparr>name = ''cloc'', background = False, auto_complete = False,
      arg_count = 3, args = [Some ''cloc'', Some ''src'', None], redirects = [Null, Null, Null]\<rparr>"
  have t: "tally tree = (3, 1)" and f: "fits_tree ''/w/src'' tree"
    unfolding tree_def by code_simp+
  have h: "args command ! 1 = Some ''src''" "length ''/w'' < 512"
    "length (join_path ''/w'' ''src'') < 1024"
    "fits_tree (join_path ''/w'' ''src'') (fs (join_path ''/w'' ''src''))"
    using f by (simp_all add: command_def join_path_def fs_def)
  have "fs (join_path ''/w'' ''src'') = tree"
    by (simp add: fs_def join_path_def)
  with cloc_counts_tree [of command "''src''" "''/w''" fs, OF h] t
  have "\<exists>st totals. builtin_cloc ''/w'' fs command = Inr (st, totals) \<and>
      processed_files st = 3 \<and> ignored_files st = 1 \<and> totals ! 3 = 3"
    by auto
  thus ?thesis
    unfolding fs_def command_def tree_def .
qed

end
