(* ===== verification/Exec.thy ===== *)
theory Exec
  imports Command
begin

text \<open>
  The execution engine of the shell: the dispatch on the command name at the head of
  \<open>process_command\<close> and its process launcher (lines 545-554 and 875-976 of
  \<open>src/src/shell-skeleton.c\<close>).

  What the launcher sees of the operating system is a parameter: the value of \<open>PATH\<close>,
  the files \<open>access\<close> finds (\<open>exists\<close>) and the files \<open>execv\<close> can start
  (\<open>can_exec\<close>). The search of \<open>PATH\<close> is \<open>search_loop\<close> over the state of
  \<open>strtok\<close>; it returns the content of the two arrays the code fills, \<open>path\<close> (the
  last candidate that was formatted) and \<open>e_path\<close> (\<open>None\<close> while it was never
  written). The child process is the function \<open>child\<close> from the command and the two
  arrays to the way the child ends: its image replaced by a program, with the argument
  vector and the one redirection the child has set up with \<open>open\<close> and \<open>dup2\<close> (whose
  results the code does not test), the same in a second child for a background command,
  or \<open>exit\<close>. A call of \<open>execv\<close> that fails returns, and the code after it
  runs, as in the source. Using \<open>e_path\<close> before it was written, formatting a NULL
  directory, and the arrays of 1024 bytes being too small are errors of the model.

  The lemmas show that the first directory of \<open>PATH\<close> that holds the name wins, that the
  background branch starts the same file as the foreground branch, that a name that is not
  found leaves \<open>e_path\<close> unwritten, and which return codes \<open>process_command\<close> has.
\<close>

section \<open>Dispatch\<close>

datatype dispatch = Return_now return_codes | Run_builtin cstring | Spawn

definition builtin_names :: "cstring list" where
  "builtin_names = [''cdh'', ''roll'', ''cloc'', ''rename'', ''mvsf'', ''searchwords'', ''psvis'']"

definition dispatch_command :: "command_fields \<Rightarrow> dispatch" where
  "dispatch_command command =
     (if strcmp_eq (name command) '''' then Return_now SUCCESS
      else if strcmp_eq (name command) ''exit'' then Return_now EXIT
      else if strcmp_eq (name command) ''cd'' \<and> 0 < arg_count command then Run_builtin ''cd''
      else if list_ex (strcmp_eq (name command)) builtin_names then Run_builtin (name command)
      else Spawn)"

definition process_command_code :: "command_fields \<Rightarrow> return_codes" where
  "process_command_code command =
     (case dispatch_command command of
        Return_now r \<Rightarrow> r
      | Run_builtin b \<Rightarrow> SUCCESS
      | Spawn \<Rightarrow> SUCCESS)"

section \<open>The search of PATH\<close>

datatype exec_error =
  NullPath | PathCopyOverflow | NullDirectory | CandidateOverflow | UnwrittenPath | WildRedirect

definition candidate :: "cstring \<Rightarrow> cstring \<Rightarrow> cstring" where
  "candidate token nm = token @ ''/'' @ nm"

function search_loop ::
  "(cstring \<Rightarrow> bool) \<Rightarrow> cstring \<Rightarrow> cstring \<Rightarrow> cstring \<Rightarrow> exec_error + cstring \<times> cstring option" where
  "search_loop exists nm token st =
     (if 1024 < length (candidate token nm) + 1 then Inl CandidateOverflow
      else if exists (candidate token nm)
        then Inr (candidate token nm, Some (candidate token nm))
      else case strtok '':'' st of
             None \<Rightarrow> Inr (candidate token nm, None)
           | Some (token', dl, st') \<Rightarrow> search_loop exists nm token' st')"
  by pat_completeness auto

termination
  by (relation "measure (\<lambda>(exists, nm, token, st). length st)")
    (auto simp: strtok_Some_length)

declare search_loop.simps [simp del]

definition resolve_path ::
  "cstring option \<Rightarrow> (cstring \<Rightarrow> bool) \<Rightarrow> cstring \<Rightarrow> exec_error + cstring \<times> cstring option" where
  "resolve_path shellPath exists nm =
     (case shellPath of
        None \<Rightarrow> Inl NullPath
      | Some p \<Rightarrow>
          if 1024 < length p + 1 then Inl PathCopyOverflow
          else case strtok '':'' p of
                 None \<Rightarrow> Inl NullDirectory
               | Some (token, dl, st) \<Rightarrow> search_loop exists nm token st)"

section \<open>The child process\<close>

datatype redirection = From_file cstring | To_file cstring | Append_file cstring

record exec_call =
  program :: cstring
  argv :: "cstring option list"
  redirect :: "redirection option"

datatype child_end =
  Replaced exec_call | Background_replaced exec_call | Exit_not_found | Exit_silent

definition arr_of :: "command_fields \<Rightarrow> cstring option list" where
  "arr_of command = take (arg_count command) (args command) @ [None]"

definition child_rest ::
  "(cstring \<Rightarrow> bool) \<Rightarrow> command_fields \<Rightarrow> cstring \<Rightarrow> cstring option \<Rightarrow> redirection option \<Rightarrow>
     exec_error + child_end" where
  "child_rest can_exec command path e_path redir =
     (if background command then
        (if can_exec path
         then Inr (Background_replaced \<lparr>program = path, argv = arr_of command, redirect = redir\<rparr>)
         else Inr Exit_silent)
      else case e_path of
             None \<Rightarrow> Inl UnwrittenPath
           | Some p \<Rightarrow>
               if can_exec p
               then Inr (Replaced \<lparr>program = p, argv = arr_of command, redirect = redir\<rparr>)
               else Inr Exit_not_found)"

definition child_redirected ::
  "(cstring \<Rightarrow> bool) \<Rightarrow> command_fields \<Rightarrow> cstring \<Rightarrow> cstring option \<Rightarrow> redirection \<Rightarrow> bool \<Rightarrow>
     exec_error + child_end" where
  "child_redirected can_exec command path e_path redir exits =
     (case e_path of
        None \<Rightarrow> Inl UnwrittenPath
      | Some p \<Rightarrow>
          if can_exec p
          then Inr (Replaced \<lparr>program = p, argv = arr_of command, redirect = Some redir\<rparr>)
          else if exits then Inr Exit_silent
          else child_rest can_exec command path e_path (Some redir))"

definition child ::
  "(cstring \<Rightarrow> bool) \<Rightarrow> command_fields \<Rightarrow> cstring \<Rightarrow> cstring option \<Rightarrow> exec_error + child_end" where
  "child can_exec command path e_path =
     (case redirects command ! 0 of
        Wild \<Rightarrow> Inl WildRedirect
      | Ptr t \<Rightarrow> child_redirected can_exec command path e_path (From_file t) False
      | Null \<Rightarrow>
          (case redirects command ! 1 of
             Wild \<Rightarrow> Inl WildRedirect
           | Ptr t \<Rightarrow> child_redirected can_exec command path e_path (To_file t) True
           | Null \<Rightarrow>
               (case redirects command ! 2 of
                  Wild \<Rightarrow> Inl WildRedirect
                | Ptr t \<Rightarrow> child_redirected can_exec command path e_path (Append_file t) False
                | Null \<Rightarrow> child_rest can_exec command path e_path None)))"

definition launch ::
  "cstring option \<Rightarrow> (cstring \<Rightarrow> bool) \<Rightarrow> (cstring \<Rightarrow> bool) \<Rightarrow> command_fields \<Rightarrow>
     exec_error + child_end" where
  "launch shellPath exists can_exec command =
     (case resolve_path shellPath exists (name command) of
        Inl err \<Rightarrow> Inl err
      | Inr (path, e_path) \<Rightarrow> child can_exec command path e_path)"

section \<open>Return codes\<close>

lemma process_command_code_eq:
  "process_command_code command = (if name command = ''exit'' then EXIT else SUCCESS)"
  by (simp add: process_command_code_def dispatch_command_def)

lemma process_command_never_unknown: "process_command_code command \<noteq> UNKNOWN"
  by (simp add: process_command_code_eq)

section \<open>The first match wins\<close>

definition fits :: "cstring \<Rightarrow> cstring list \<Rightarrow> bool" where
  "fits nm dirs \<longleftrightarrow> list_all (\<lambda>d. length (candidate d nm) < 1024) dirs"

definition first_match :: "(cstring \<Rightarrow> bool) \<Rightarrow> cstring \<Rightarrow> cstring list \<Rightarrow> cstring \<times> cstring option" where
  "first_match exists nm dirs =
     (case find (\<lambda>d. exists (candidate d nm)) dirs of
        Some d \<Rightarrow> (candidate d nm, Some (candidate d nm))
      | None \<Rightarrow> (candidate (last dirs) nm, None))"

lemma first_match_Cons:
  "first_match exists nm (d # dirs) =
     (if exists (candidate d nm) then (candidate d nm, Some (candidate d nm))
      else if dirs = [] then (candidate d nm, None) else first_match exists nm dirs)"
  by (auto simp: first_match_def split: option.splits)

lemma search_loop_first_match:
  assumes "fits nm (token # tokens '':'' st)"
  shows "search_loop exists nm token st = Inr (first_match exists nm (token # tokens '':'' st))"
  using assms
proof (induction exists nm token st rule: search_loop.induct)
  case (1 exists nm token st)
  from "1.prems" have f: "\<not> 1024 < length (candidate token nm) + 1"
    by (simp add: fits_def)
  show ?case
  proof (cases "exists (candidate token nm)")
    case True
    with f show ?thesis
      by (simp add: search_loop.simps [of exists nm token st] first_match_Cons)
  next
    case False
    show ?thesis
    proof (cases "strtok '':'' st")
      case None
      with f False show ?thesis
        by (simp add: search_loop.simps [of exists nm token st] first_match_Cons tokens_None)
    next
      case (Some r)
      obtain token' dl st' where r: "r = (token', dl, st')"
        by (cases r)
      note t = tokens_Some [OF Some [unfolded r]]
      from "1.prems" have "fits nm (token' # tokens '':'' st')"
        by (simp add: fits_def t)
      from "1.IH" [OF f False Some [unfolded r] refl refl this] f False Some r show ?thesis
        by (simp add: search_loop.simps [of exists nm token st] first_match_Cons t)
    qed
  qed
qed

lemma first_match_same:
  "first_match exists nm dirs = (path, Some e_path) \<Longrightarrow> path = e_path"
  by (auto simp: first_match_def split: option.splits)

lemma first_match_found:
  assumes "first_match exists nm dirs = (path, Some e_path)"
  shows "exists e_path" and "\<exists>d \<in> set dirs. e_path = candidate d nm"
  using assms by (auto simp: first_match_def find_Some_iff split: option.splits)

lemma search_loop_Inr_same:
  "search_loop exists nm token st = Inr (path, Some e_path) \<Longrightarrow> path = e_path"
proof (induction exists nm token st rule: search_loop.induct)
  case (1 exists nm token st)
  from "1.prems" show ?case
    by (subst (asm) search_loop.simps) (auto split: if_splits option.splits intro: "1.IH")
qed

lemma search_first_match:
  assumes "length p < 1024" and "tokens '':'' p \<noteq> []" and "fits nm (tokens '':'' p)"
  shows "resolve_path (Some p) exists nm = Inr (first_match exists nm (tokens '':'' p))"
proof -
  from assms(2) obtain token dl st where s: "strtok '':'' p = Some (token, dl, st)"
    by (cases "strtok '':'' p") (auto simp: tokens_None)
  note t = tokens_Some [OF s]
  from assms(3) have "search_loop exists nm token st = Inr (first_match exists nm (token # tokens '':'' st))"
    unfolding t by (rule search_loop_first_match)
  with assms(1) s show ?thesis
    by (simp add: resolve_path_def t)
qed

text \<open>
  C26. The search of \<open>PATH\<close> takes the first match: when \<open>PATH\<close> and every candidate
  fit their 1024-byte arrays and \<open>PATH\<close> names at least one directory, \<open>e_path\<close> is
  \<open>dir/name\<close> for the first directory of \<open>PATH\<close>, in its order, for which that file
  exists; when there is none, \<open>e_path\<close> is never written and \<open>path\<close> holds the
  candidate of the last directory.
\<close>

theorem resolve_first_match:
  assumes "length p < 1024" and "tokens '':'' p \<noteq> []" and "fits nm (tokens '':'' p)"
  shows "resolve_path (Some p) exists nm = Inr (first_match exists nm (tokens '':'' p))"
  using assms by (rule search_first_match)

theorem resolve_first_match_witness:
  "tokens '':'' ''/usr/local/bin:/usr/bin:/bin'' = [''/usr/local/bin'', ''/usr/bin'', ''/bin''] \<and>
   fits ''ls'' (tokens '':'' ''/usr/local/bin:/usr/bin:/bin'') \<and>
   resolve_path (Some ''/usr/local/bin:/usr/bin:/bin'')
     (\<lambda>f. f = ''/usr/bin/ls'' \<or> f = ''/bin/ls'') ''ls'' = Inr (''/usr/bin/ls'', Some ''/usr/bin/ls'')"
proof -
  have t: "tokens '':'' ''/usr/local/bin:/usr/bin:/bin'' = [''/usr/local/bin'', ''/usr/bin'', ''/bin'']"
    by code_simp
  have f: "fits ''ls'' (tokens '':'' ''/usr/local/bin:/usr/bin:/bin'')"
    unfolding t by (simp add: fits_def candidate_def)
  have n: "length ''/usr/local/bin:/usr/bin:/bin'' < 1024" "tokens '':'' ''/usr/local/bin:/usr/bin:/bin'' \<noteq> []"
    unfolding t by simp_all
  from resolve_first_match [OF n f, of "\<lambda>f. f = ''/usr/bin/ls'' \<or> f = ''/bin/ls''"] t f
  show ?thesis
    by (simp add: first_match_def candidate_def)
qed

section \<open>What the child starts\<close>

definition requested :: "command_fields \<Rightarrow> redirection option" where
  "requested command =
     (case redirects command ! 0 of
        Ptr t \<Rightarrow> Some (From_file t)
      | _ \<Rightarrow>
          (case redirects command ! 1 of
             Ptr t \<Rightarrow> Some (To_file t)
           | _ \<Rightarrow> (case redirects command ! 2 of Ptr t \<Rightarrow> Some (Append_file t) | _ \<Rightarrow> None)))"

definition no_wild :: "command_fields \<Rightarrow> bool" where
  "no_wild command \<longleftrightarrow>
     redirects command ! 0 \<noteq> Wild \<and> redirects command ! 1 \<noteq> Wild \<and> redirects command ! 2 \<noteq> Wild"

definition call_of :: "command_fields \<Rightarrow> cstring \<Rightarrow> exec_call" where
  "call_of command p = \<lparr>program = p, argv = arr_of command, redirect = requested command\<rparr>"

lemma child_found:
  assumes "no_wild command" and "can_exec p"
  shows "child can_exec command p (Some p) =
           Inr (if background command \<and> requested command = None
                then Background_replaced (call_of command p) else Replaced (call_of command p))"
  using assms
  by (auto simp: child_def child_redirected_def child_rest_def requested_def no_wild_def
      call_of_def split: ptr.splits)

lemma child_not_found:
  assumes "no_wild command" and "\<not> can_exec path"
  shows "child can_exec command path None =
           (if background command \<and> requested command = None then Inr Exit_silent
            else Inl UnwrittenPath)"
  using assms
  by (auto simp: child_def child_redirected_def child_rest_def requested_def no_wild_def
      split: ptr.splits)

lemma child_not_executable:
  assumes "no_wild command" and "\<not> can_exec p"
  shows "child can_exec command p (Some p) =
           Inr (if background command \<or> (\<exists>t. requested command = Some (To_file t))
                then Exit_silent else Exit_not_found)"
  using assms
  by (auto simp: child_def child_redirected_def child_rest_def requested_def no_wild_def
      split: ptr.splits)

lemma launch_call:
  assumes "resolve_path shellPath exists (name command) = Inr (path, Some e_path)"
    and "no_wild command" and "can_exec e_path"
  shows "launch shellPath exists can_exec command =
           Inr (if background command \<and> requested command = None
                then Background_replaced (call_of command e_path)
                else Replaced (call_of command e_path))"
proof -
  have "path = e_path"
    using assms(1)
    by (auto simp: resolve_path_def search_loop_Inr_same split: option.splits if_splits)
  with assms show ?thesis
    by (simp add: launch_def child_found)
qed

text \<open>
  C17. A command whose name is found on \<open>PATH\<close> and can be executed is started from the
  file the search found, with the argument vector of the command and its one redirection
  (input before output before append). It runs in a second child, which nobody waits for,
  only when it is a background command and has no redirection: a background command with a
  redirection replaces the first child, which the shell waits for.
\<close>

theorem launch_found:
  assumes "resolve_path shellPath exists (name command) = Inr (path, Some e_path)"
    and "no_wild command" and "can_exec e_path"
  shows "launch shellPath exists can_exec command =
           Inr (if background command \<and> requested command = None
                then Background_replaced (call_of command e_path)
                else Replaced (call_of command e_path))"
  using assms by (rule launch_call)

theorem launch_found_witness:
  "launch (Some ''/usr/bin:/bin'') (\<lambda>f. f = ''/bin/ls'') (\<lambda>f. f = ''/bin/ls'')
     (zero_fields\<lparr>name := ''ls'', background := True, arg_count := 2,
        args := [Some ''ls'', Some ''-l'', None],
        redirects := [Null, Ptr ''out.txt'', Null]\<rparr>) =
   Inr (Replaced \<lparr>program = ''/bin/ls'', argv = [Some ''ls'', Some ''-l'', None],
          redirect = Some (To_file ''out.txt'')\<rparr>)"
proof -
  define command where "command = zero_fields\<lparr>name := ''ls'', background := True, arg_count := 2,
        args := [Some ''ls'', Some ''-l'', None], redirects := [Null, Ptr ''out.txt'', Null]\<rparr>"
  have r: "resolve_path (Some ''/usr/bin:/bin'') (\<lambda>f. f = ''/bin/ls'') (name command) =
             Inr (''/bin/ls'', Some ''/bin/ls'')"
    unfolding command_def by code_simp
  have w: "no_wild command"
    by (simp add: no_wild_def command_def)
  from launch_found [OF r w, of "\<lambda>f. f = ''/bin/ls''"] show ?thesis
    by (simp add: command_def requested_def call_of_def arr_of_def)
qed

text \<open>
  C27. A command whose name is in no directory of \<open>PATH\<close> never reaches the message
  \<open>command not found\<close> in a defined way: \<open>e_path\<close> was never written, and the child
  passes it to \<open>execv\<close> uninitialised. Only a background command without redirection
  avoids it, because that branch uses \<open>path\<close>, the candidate of the last directory; its
  second child exits without a message.
\<close>

theorem launch_not_found:
  assumes "length p < 1024" and "tokens '':'' p \<noteq> []" and "fits (name command) (tokens '':'' p)"
    and "list_all (\<lambda>d. \<not> exists (candidate d (name command))) (tokens '':'' p)"
    and "no_wild command"
    and "\<not> can_exec (candidate (last (tokens '':'' p)) (name command))"
  shows "launch (Some p) exists can_exec command =
           (if background command \<and> requested command = None then Inr Exit_silent
            else Inl UnwrittenPath)"
proof -
  from assms(4) have "find (\<lambda>d. exists (candidate d (name command))) (tokens '':'' p) = None"
    by (simp add: find_None_iff list_all_iff)
  hence "first_match exists (name command) (tokens '':'' p) =
           (candidate (last (tokens '':'' p)) (name command), None)"
    by (simp add: first_match_def)
  with search_first_match [OF assms(1-3), of exists] assms(5,6) show ?thesis
    by (simp add: launch_def child_not_found)
qed

theorem launch_not_found_witness:
  "launch (Some ''/usr/bin:/bin'') (\<lambda>f. f = ''/bin/ls'') (\<lambda>f. f = ''/bin/ls'')
     (zero_fields\<lparr>name := ''lss'', arg_count := 1, args := [Some ''lss'', None],
        redirects := [Null, Null, Null]\<rparr>) = Inl UnwrittenPath"
proof -
  define command where "command = zero_fields\<lparr>name := ''lss'', arg_count := 1,
        args := [Some ''lss'', None], redirects := [Null, Null, Null]\<rparr>"
  have t: "tokens '':'' ''/usr/bin:/bin'' = [''/usr/bin'', ''/bin'']"
    by code_simp
  have h: "length ''/usr/bin:/bin'' < 1024" "tokens '':'' ''/usr/bin:/bin'' \<noteq> []"
    "fits (name command) (tokens '':'' ''/usr/bin:/bin'')"
    "list_all (\<lambda>d. \<not> (\<lambda>f. f = ''/bin/ls'') (candidate d (name command))) (tokens '':'' ''/usr/bin:/bin'')"
    "no_wild command"
    "\<not> (\<lambda>f. f = ''/bin/ls'') (candidate (last (tokens '':'' ''/usr/bin:/bin'')) (name command))"
    unfolding t by (simp_all add: fits_def candidate_def command_def no_wild_def)
  from launch_not_found [of "''/usr/bin:/bin''" command "\<lambda>f. f = ''/bin/ls''" "\<lambda>f. f = ''/bin/ls''", OF h]
  show ?thesis
    by (simp add: command_def requested_def zero_fields_def)
qed

end
