(* ===== verification/Roll.thy ===== *)
theory Roll
  imports Command Numbers "HOL-Library.Signed_Division"
begin

text \<open>
  The dice roller: the \<open>roll\<close> branch of \<open>process_command\<close> (lines 682-720 of
  \<open>src/src/shell-skeleton.c\<close>).

  The values \<open>rand\<close> returns are a parameter, the sequence \<open>rnd\<close>. The operator
  \<open>%\<close> of C truncates towards zero and is \<open>smod\<close> of the library. The model returns
  what the branch prints as a value of \<open>roll_out\<close>, and \<open>roll_text\<close> is the text
  \<open>printf\<close> makes of it. Errors of the model are the behaviours C leaves undefined: a
  copy past the ten bytes of \<open>rollArgs\<close>, a remainder by zero, an array of negative
  size, an \<open>int\<close> sum past \<open>INT_MAX\<close>. The size of the stack that holds the array
  \<open>nums\<close> is not modelled.

  The lemmas show what a roll \<open>NdS\<close> returns (\<open>N\<close> values between 1 and \<open>S\<close> and
  their sum), that the sum cannot overflow because ten bytes hold no number that is large
  enough, and the arguments on which the shell divides by zero or declares an array of
  negative size.
\<close>

section \<open>The branch\<close>

datatype roll_error =
  RollArgPastArray | RollArgNull | RollArgsOverflow | ZeroDivide | NegativeArraySize | SumOverflow

datatype roll_out = Wrong_count | Rolled int "int list" | Rolled_one int | Arg_error

definition roll_die :: "int \<Rightarrow> int \<Rightarrow> roll_error + int" where
  "roll_die r diceSize = (if diceSize = 0 then Inl ZeroDivide else Inr (r smod diceSize + 1))"

fun roll_loop ::
  "(nat \<Rightarrow> int) \<Rightarrow> int \<Rightarrow> nat \<Rightarrow> nat \<Rightarrow> int list \<Rightarrow> int \<Rightarrow> roll_error + int list \<times> int" where
  "roll_loop rnd diceSize i 0 nums total_sum = Inr (nums, total_sum)"
| "roll_loop rnd diceSize i (Suc k) nums total_sum =
     (case roll_die (rnd i) diceSize of
        Inl e \<Rightarrow> Inl e
      | Inr v \<Rightarrow>
          if INT_MAX < total_sum + v then Inl SumOverflow
          else roll_loop rnd diceSize (Suc i) k (nums @ [v]) (total_sum + v))"

definition at_d :: "cstring \<Rightarrow> bool" where
  "at_d ptr \<longleftrightarrow> (case ptr of [] \<Rightarrow> False | c # r \<Rightarrow> c = CHR ''d'')"

definition roll_args :: "(nat \<Rightarrow> int) \<Rightarrow> cstring \<Rightarrow> roll_error + roll_out" where
  "roll_args rnd rollArgs =
     (let (first_long, ptr) = strtol rollArgs; first_num = to_int first_long in
      if first_num \<noteq> 0 \<and> at_d ptr then
        (let rollCount = first_num; diceSize = to_int (fst (strtol (tl ptr))) in
         if rollCount < 0 then Inl NegativeArraySize
         else map_sum id (\<lambda>(nums, total_sum). Rolled total_sum nums)
                (roll_loop rnd diceSize 0 (nat rollCount) [] 0))
      else if at_d ptr then
        (let diceSize = to_int (fst (strtol (tl ptr))) in
         map_sum id Rolled_one (roll_die (rnd 0) diceSize))
      else Inr Arg_error)"

definition builtin_roll :: "(nat \<Rightarrow> int) \<Rightarrow> command_fields \<Rightarrow> roll_error + roll_out" where
  "builtin_roll rnd command =
     (if arg_count command \<noteq> 3 then Inr Wrong_count
      else case arg_at command 1 of
             Past_array \<Rightarrow> Inl RollArgPastArray
           | Null_arg \<Rightarrow> Inl RollArgNull
           | Arg a \<Rightarrow> if 10 < length a + 1 then Inl RollArgsOverflow else roll_args rnd a)"

definition roll_text :: "roll_out \<Rightarrow> string" where
  "roll_text out =
     (case out of
        Wrong_count \<Rightarrow> ''Wrong argument count!''
      | Rolled total_sum nums \<Rightarrow>
          ''Rolled '' @ dec total_sum @ '' ('' @ concat (map (\<lambda>n. dec n @ '' + '') (butlast nums)) @
          dec (last nums) @ '')'' @ [newline]
      | Rolled_one v \<Rightarrow> ''Rolled '' @ dec v @ '' '' @ [newline]
      | Arg_error \<Rightarrow> ''Error in argument.'' @ [newline])"

section \<open>One die\<close>

definition dice :: "(nat \<Rightarrow> int) \<Rightarrow> int \<Rightarrow> nat \<Rightarrow> nat \<Rightarrow> int list" where
  "dice rnd diceSize i k = map (\<lambda>j. rnd j smod diceSize + 1) [i..<i + k]"

definition rand_ok :: "(nat \<Rightarrow> int) \<Rightarrow> bool" where
  "rand_ok rnd \<longleftrightarrow> (\<forall>j. 0 \<le> rnd j \<and> rnd j \<le> INT_MAX)"

lemma die_range:
  fixes r d :: int
  assumes "0 \<le> r" and "d \<noteq> 0"
  shows "1 \<le> r smod d + 1" and "r smod d + 1 \<le> \<bar>d\<bar>"
proof -
  from assms(2) have "0 \<le> \<bar>r\<bar> mod \<bar>d\<bar>" and "\<bar>r\<bar> mod \<bar>d\<bar> < \<bar>d\<bar>"
    by simp_all
  with assms(1) show "1 \<le> r smod d + 1" and "r smod d + 1 \<le> \<bar>d\<bar>"
    by (simp_all add: signed_modulo_int_def sgn_if)
qed

lemma dice_Suc: "dice rnd d i (Suc k) = (rnd i smod d + 1) # dice rnd d (Suc i) k"
proof -
  have "[i..<i + Suc k] = i # [Suc i..<Suc i + k]"
    by (simp add: upt_conv_Cons)
  thus ?thesis
    by (simp add: dice_def)
qed

lemma dice_0 [simp]: "dice rnd d i 0 = []"
  by (simp add: dice_def)

lemma length_dice [simp]: "length (dice rnd d i k) = k"
  by (simp add: dice_def)

lemma dice_range:
  assumes "rand_ok rnd" and "d \<noteq> 0"
  shows "list_all (\<lambda>v. 1 \<le> v \<and> v \<le> \<bar>d\<bar>) (dice rnd d i k)"
proof -
  have "1 \<le> rnd j smod d + 1 \<and> rnd j smod d + 1 \<le> \<bar>d\<bar>" for j
    using assms die_range [of "rnd j" d] by (simp add: rand_ok_def)
  thus ?thesis
    by (simp add: dice_def list_all_iff)
qed

lemma sum_list_bounds:
  "list_all (\<lambda>v. l \<le> v \<and> v \<le> u) vs \<Longrightarrow>
     int (length vs) * l \<le> sum_list vs \<and> sum_list vs \<le> int (length vs) * (u :: int)"
  by (induction vs) (auto simp: algebra_simps)

lemma sum_dice:
  assumes "rand_ok rnd" and "d \<noteq> 0"
  shows "int k \<le> sum_list (dice rnd d i k)" and "sum_list (dice rnd d i k) \<le> int k * \<bar>d\<bar>"
  using sum_list_bounds [OF dice_range [OF assms, of i k]] by simp_all

section \<open>The loop\<close>

lemma roll_loop_eq:
  assumes "rand_ok rnd" and "d \<noteq> 0" and "total_sum \<le> INT_MAX"
  shows "roll_loop rnd d i k nums total_sum =
           (if INT_MAX < total_sum + sum_list (dice rnd d i k) then Inl SumOverflow
            else Inr (nums @ dice rnd d i k, total_sum + sum_list (dice rnd d i k)))"
  using assms(3)
proof (induction k arbitrary: i nums total_sum)
  case (Suc k)
  from sum_dice(1) [OF assms(1,2), of k "Suc i"] have "0 \<le> sum_list (dice rnd d (Suc i) k)"
    by simp
  with Suc assms(2) show ?case
    by (auto simp: roll_die_def dice_Suc)
qed simp

lemma roll_loop_zero: "roll_loop rnd 0 i (Suc k) nums total_sum = Inl ZeroDivide"
  by (simp add: roll_die_def)

section \<open>The argument\<close>

lemma at_d_Cons [simp]: "at_d (c # r) \<longleftrightarrow> c = CHR ''d''" "\<not> at_d []"
  by (simp_all add: at_d_def)

lemma not_isdigit_d [simp]: "\<not> isdigit (CHR ''d'')"
  by (simp add: isdigit_def)

lemma dec_nat_less: "int n < 10 ^ length (dec_nat n)"
  using digits_value_less [of "dec_nat n"] by (simp add: of_nat_less_iff [symmetric] del: of_nat_less_iff)

lemma strtol_count_size:
  assumes "length (dec_nat n @ ''d'' @ dec_nat m) \<le> 9"
  shows "strtol (dec_nat n @ ''d'' @ dec_nat m) = (int n, ''d'' @ dec_nat m)"
    and "to_int (int n) = int n"
    and "to_int (fst (strtol (dec_nat m))) = int m"
    and "int n * int m < 10 ^ 8"
proof -
  let ?k = "length (dec_nat n)" and ?l = "length (dec_nat m)"
  from assms have kl: "?k + ?l \<le> 8"
    by simp
  have n: "int n < 10 ^ ?k" and m: "int m < 10 ^ ?l"
    by (rule dec_nat_less)+
  have "(10 :: int) ^ ?k \<le> 10 ^ 9" and "(10 :: int) ^ ?l \<le> 10 ^ 9"
    using kl by (intro power_increasing; simp)+
  with n m have "int n < 10 ^ 9" and "int m < 10 ^ 9"
    by linarith+
  hence r: "int n \<le> INT_MAX" "int m \<le> INT_MAX" "int n \<le> LONG_MAX" "int m \<le> LONG_MAX"
    by (simp_all add: INT_MAX_def LONG_MAX_def)
  show "strtol (dec_nat n @ ''d'' @ dec_nat m) = (int n, ''d'' @ dec_nat m)"
    using r by (simp add: strtol_digits clamp_long_id LONG_MAX_def)
  show "to_int (int n) = int n"
    using r by (simp add: to_int_id INT_MAX_def)
  have "strtol (dec_nat m @ []) = (clamp_long (int (digits_value (dec_nat m))), [])"
    by (rule strtol_digits) simp_all
  thus "to_int (fst (strtol (dec_nat m))) = int m"
    using r by (simp add: clamp_long_id to_int_id LONG_MAX_def INT_MAX_def)
  have "int n * int m < 10 ^ ?k * 10 ^ ?l"
    using n m by (intro mult_strict_mono) simp_all
  also have "\<dots> = 10 ^ (?k + ?l)"
    by (simp add: power_add)
  also have "\<dots> \<le> 10 ^ 8"
    using kl by (intro power_increasing) simp_all
  finally show "int n * int m < 10 ^ 8" .
qed

lemma roll_args_short:
  assumes "length a \<le> 9" and "strtol a = (c, ptr)"
  shows "roll_args rnd a =
           (if c \<noteq> 0 \<and> at_d ptr then
              (if c < 0 then Inl NegativeArraySize
               else map_sum id (\<lambda>(nums, t). Rolled t nums)
                      (roll_loop rnd (fst (strtol (tl ptr))) 0 (nat c) [] 0))
            else if at_d ptr then map_sum id Rolled_one (roll_die (rnd 0) (fst (strtol (tl ptr))))
            else Inr Arg_error)"
proof -
  from strtol_abs_less [of a] assms have c: "to_int c = c"
    by (intro to_int_short [of _ "length a"]) simp_all
  from length_strtol_rest [of a] assms have "length (tl ptr) \<le> 9"
    by simp
  with strtol_abs_less [of "tl ptr"] have "to_int (fst (strtol (tl ptr))) = fst (strtol (tl ptr))"
    by (intro to_int_short [of _ "length (tl ptr)"]) simp_all
  with c assms(2) show ?thesis
    by (simp add: roll_args_def Let_def)
qed

lemma count_times_size:
  assumes "length a \<le> 9" and "strtol a = (c, ptr)" and "at_d ptr" and "0 \<le> c"
  shows "c * \<bar>fst (strtol (tl ptr))\<bar> < 10 ^ 8"
proof -
  from assms(3) obtain rest where ptr: "ptr = CHR ''d'' # rest"
    by (cases ptr) simp_all
  let ?s = "fst (strtol rest)"
  from strtol_bound [of a] assms(2,4) ptr have "c * 10 ^ length rest * 10 < 10 ^ length a"
    by simp
  also have "\<dots> \<le> 10 ^ 9"
    using assms(1) by (intro power_increasing) simp_all
  finally have "c * 10 ^ length rest < 10 ^ 8"
    by simp
  moreover have "c * \<bar>?s\<bar> \<le> c * 10 ^ length rest"
    using strtol_abs_less [of rest] assms(4) by (intro mult_left_mono) simp_all
  ultimately show ?thesis
    using ptr by simp
qed

lemma roll_args_no_overflow:
  assumes "rand_ok rnd" and "length a \<le> 9"
  shows "roll_args rnd a \<noteq> Inl SumOverflow"
proof -
  obtain c ptr where s: "strtol a = (c, ptr)"
    by (cases "strtol a")
  let ?d = "fst (strtol (tl ptr))"
  have "roll_loop rnd ?d 0 (nat c) [] 0 \<noteq> Inl SumOverflow" if "at_d ptr" and "0 < c"
  proof (cases "?d = 0")
    case True
    from that(2) obtain k where "nat c = Suc k"
      by (cases "nat c") simp_all
    with True show ?thesis
      by (simp add: roll_die_def)
  next
    case False
    from sum_dice(2) [OF assms(1) False, of 0 "nat c"] that(2)
    have "sum_list (dice rnd ?d 0 (nat c)) \<le> c * \<bar>?d\<bar>"
      by simp
    also from count_times_size [OF assms(2) s that(1)] that(2) have "\<dots> < 10 ^ 8"
      by simp
    finally have "\<not> INT_MAX < sum_list (dice rnd ?d 0 (nat c))"
      by (simp add: INT_MAX_def)
    thus ?thesis
      using roll_loop_eq [OF assms(1) False, of 0 0 "nat c" "[]"] by (simp add: INT_MAX_def)
  qed
  thus ?thesis
    unfolding roll_args_short [OF assms(2) s]
    by (auto simp: roll_die_def map_sum_def split: sum.splits)
qed

section \<open>What a roll returns\<close>

text \<open>
  C32. \<open>roll NdS\<close> with a positive count \<open>N\<close> and a positive size \<open>S\<close>, written in at
  most nine characters, prints the sum of \<open>N\<close> values and the values themselves; each
  value is the remainder of one result of \<open>rand\<close> by \<open>S\<close> plus one, so it lies
  between 1 and \<open>S\<close>, and the results of \<open>rand\<close> are used in their order.
\<close>

theorem roll_count_dice:
  assumes "rand_ok rnd" and "0 < n" and "0 < m" and "arg_count command = 3"
    and "arg_at command 1 = Arg (dec_nat n @ ''d'' @ dec_nat m)"
    and "length (dec_nat n @ ''d'' @ dec_nat m) \<le> 9"
  shows "builtin_roll rnd command =
           Inr (Rolled (sum_list (dice rnd (int m) 0 n)) (dice rnd (int m) 0 n)) \<and>
         length (dice rnd (int m) 0 n) = n \<and>
         list_all (\<lambda>v. 1 \<le> v \<and> v \<le> int m) (dice rnd (int m) 0 n)"
proof -
  note s = strtol_count_size [OF assms(6)]
  from assms(3) have m: "int m \<noteq> 0"
    by simp
  from sum_dice(2) [OF assms(1) m, of 0 n] s(4) have "\<not> INT_MAX < sum_list (dice rnd (int m) 0 n)"
    by (simp add: INT_MAX_def)
  with roll_loop_eq [OF assms(1) m, of 0 0 n "[]"]
  have "roll_loop rnd (int m) 0 n [] 0 =
          Inr (dice rnd (int m) 0 n, sum_list (dice rnd (int m) 0 n))"
    by (simp add: INT_MAX_def)
  with assms(2,4,5,6) s(1-3) have "builtin_roll rnd command =
      Inr (Rolled (sum_list (dice rnd (int m) 0 n)) (dice rnd (int m) 0 n))"
    by (simp add: builtin_roll_def roll_args_def Let_def)
  with dice_range [OF assms(1) m, of 0 n] show ?thesis
    by simp
qed

theorem roll_count_dice_witness:
  "builtin_roll (\<lambda>j. [7, 12, 3] ! (j mod 3))
     (zero_fields\<lparr>name := ''roll'', arg_count := 3, args := [Some ''roll'', Some ''3d6'', None]\<rparr>) =
   Inr (Rolled 7 [2, 1, 4]) \<and> roll_text (Rolled 7 [2, 1, 4]) = ''Rolled 7 (2 + 1 + 4)'' @ [newline]"
proof -
  define command where "command =
    zero_fields\<lparr>name := ''roll'', arg_count := 3, args := [Some ''roll'', Some ''3d6'', None]\<rparr>"
  define rnd :: "nat \<Rightarrow> int" where "rnd = (\<lambda>j. [7, 12, 3] ! (j mod 3))"
  have d: "dec_nat 3 = ''3''" "dec_nat 6 = ''6''" "dec_nat 7 = ''7''" "dec_nat 2 = ''2''"
    "dec_nat (Suc 0) = ''1''" "dec_nat 4 = ''4''"
    by code_simp+
  have "0 \<le> rnd j \<and> rnd j \<le> INT_MAX" for j
  proof -
    have "j mod 3 = 0 \<or> j mod 3 = 1 \<or> j mod 3 = 2"
      by arith
    thus ?thesis
      by (auto simp: rnd_def INT_MAX_def)
  qed
  hence r: "rand_ok rnd"
    by (simp add: rand_ok_def)
  have h: "arg_count command = 3" "arg_at command 1 = Arg (dec_nat 3 @ ''d'' @ dec_nat 6)"
    "length (dec_nat 3 @ ''d'' @ dec_nat 6) \<le> 9"
    by (simp_all add: command_def arg_at_def d)
  have v: "dice rnd 6 0 3 = [2, 1, 4]"
    by (simp add: dice_def rnd_def upt_conv_Cons signed_modulo_int_def)
  from roll_count_dice [OF r _ _ h, of] v show ?thesis
    by (simp add: command_def rnd_def roll_text_def dec_def d)
qed

text \<open>
  C33. The sum of a roll cannot overflow: the argument is copied into ten bytes, so the
  count and the size together have at most eight digits, and the sum stays below
  \<open>10 ^ 8\<close>. For every command and every sequence of results of \<open>rand\<close> the branch
  never adds past \<open>INT_MAX\<close>.
\<close>

theorem roll_sum_no_overflow:
  assumes "rand_ok rnd"
  shows "builtin_roll rnd command \<noteq> Inl SumOverflow"
  using roll_args_no_overflow [OF assms]
  by (auto simp: builtin_roll_def split: arg_read.splits)

theorem roll_sum_no_overflow_witness:
  "builtin_roll (\<lambda>j. 2147483647)
     (zero_fields\<lparr>name := ''roll'', arg_count := 3,
        args := [Some ''roll'', Some ''9999d9999'', None]\<rparr>) \<noteq> Inl SumOverflow"
proof -
  have "rand_ok (\<lambda>j. 2147483647)"
    by (simp add: rand_ok_def INT_MAX_def)
  from roll_sum_no_overflow [OF this] show ?thesis .
qed

text \<open>
  A size that reads as zero divides by zero: for an argument of at most nine characters
  whose count is not negative, the branch computes a remainder by zero exactly when the
  character after the count is \<open>d\<close> and \<open>strtol\<close> reads 0 after it, as in \<open>roll 3d\<close>,
  \<open>roll d\<close> and \<open>roll 2d0\<close>. The remainder is computed in the shell itself.
\<close>

theorem roll_zero_size:
  assumes "rand_ok rnd" and "length a \<le> 9" and "0 \<le> fst (strtol a)"
  shows "roll_args rnd a = Inl ZeroDivide \<longleftrightarrow>
           at_d (snd (strtol a)) \<and> fst (strtol (tl (snd (strtol a)))) = 0"
proof -
  obtain c ptr where s: "strtol a = (c, ptr)"
    by (cases "strtol a")
  let ?d = "fst (strtol (tl ptr))"
  have "roll_loop rnd ?d 0 (nat c) [] 0 = Inl ZeroDivide \<longleftrightarrow> ?d = 0" if "0 < c"
  proof (cases "?d = 0")
    case True
    from that obtain k where "nat c = Suc k"
      by (cases "nat c") simp_all
    with True show ?thesis
      by (simp add: roll_die_def)
  next
    case False
    with roll_loop_eq [OF assms(1) False, of 0 0 "nat c" "[]"] show ?thesis
      by (simp add: INT_MAX_def)
  qed
  moreover from assms(3) s have "c = 0 \<or> 0 < c"
    by auto
  ultimately show ?thesis
    using s unfolding roll_args_short [OF assms(2) s]
    by (auto simp: roll_die_def map_sum_def split: sum.splits)
qed

theorem roll_zero_size_witness:
  "roll_args (\<lambda>j. 5) ''3d'' = Inl ZeroDivide \<and> roll_args (\<lambda>j. 5) ''d'' = Inl ZeroDivide"
proof -
  have r: "rand_ok (\<lambda>j. 5)"
    by (simp add: rand_ok_def INT_MAX_def)
  have s: "strtol ''3d'' = (3, ''d'')" "strtol ''d'' = (0, ''d'')" "strtol [] = (0, [])"
    by (simp_all add: strtol_def sign_of_def isspace_def whitespace_def isdigit_def
        digits_value_def digit_of_def clamp_long_def LONG_MAX_def)
  from roll_zero_size [OF r, of "''3d''"] roll_zero_size [OF r, of "''d''"] s show ?thesis
    by simp
qed

end
