(* ===== verification/Files.thy ===== *)
theory Files
  imports Command Numbers
begin

text \<open>
  The two builtins that work on named files: \<open>rename\<close>/\<open>mvsf\<close> (lines 761-788 of
  \<open>src/src/shell-skeleton.c\<close>) and \<open>searchwords\<close> (lines 789-819).

  The files are a map from path to content (\<open>files\<close>); \<open>rename(2)\<close> on it is
  \<open>sys_rename\<close>, from its contract for regular files. The working directory is a
  parameter. Both branches format their paths before they test the number of arguments,
  so the model reads the arguments in that order: an argument that is \<open>NULL\<close> or lies past
  the argument vector is an error of the model, as is a string that does not fit its
  array. \<open>fscanf\<close> with \<open>%1023s\<close> is \<open>scan_words\<close>: the words between white space, cut
  into pieces of 1023 characters.

  The lemmas show what \<open>searchwords\<close> counts and when that is the number of words that
  contain the searched text, what \<open>rename\<close> does to the files, and that a call with too few
  arguments never reaches the usage message.
\<close>

section \<open>Files\<close>

type_synonym files = "cstring \<rightharpoonup> char list"

definition sys_rename :: "cstring \<Rightarrow> cstring \<Rightarrow> files \<Rightarrow> files option" where
  "sys_rename old new fs =
     (case fs old of
        None \<Rightarrow> None
      | Some content \<Rightarrow> Some (if old = new then fs else (fs(old := None))(new \<mapsto> content)))"

datatype file_error = CwdTooLong | ArgPastArray | ArgNull | FileNameOverflow | WordOverflow

definition file_path :: "cstring \<Rightarrow> cstring \<Rightarrow> cstring" where
  "file_path path a = path @ ''/'' @ a"

section \<open>rename and mvsf\<close>

datatype rename_out = Rename_usage | Renamed | Rename_failed

definition builtin_rename ::
  "cstring \<Rightarrow> files \<Rightarrow> command_fields \<Rightarrow> file_error + rename_out \<times> files" where
  "builtin_rename cwd fs command =
     (if 256 < length cwd + 1 then Inl CwdTooLong
      else case arg_at command 1 of
        Past_array \<Rightarrow> Inl ArgPastArray
      | Null_arg \<Rightarrow> Inl ArgNull
      | Arg a1 \<Rightarrow>
          if 512 < length (file_path cwd a1) + 1 then Inl FileNameOverflow
          else case arg_at command 2 of
            Past_array \<Rightarrow> Inl ArgPastArray
          | Null_arg \<Rightarrow> Inl ArgNull
          | Arg a2 \<Rightarrow>
              if 512 < length (file_path cwd a2) + 1 then Inl FileNameOverflow
              else if arg_count command \<noteq> 4 then Inr (Rename_usage, fs)
              else case sys_rename (file_path cwd a1) (file_path cwd a2) fs of
                     Some fs' \<Rightarrow> Inr (Renamed, fs')
                   | None \<Rightarrow> Inr (Rename_failed, fs))"

definition rename_text :: "rename_out \<Rightarrow> string" where
  "rename_text out =
     (case out of
        Rename_usage \<Rightarrow>
          ''Wrong arguments!'' @ [newline] @
          ''Usage for mvsf(move to subfolder): mvsf <old file name> <new file namepath>'' @ [newline] @
          ''Usage for rename: rename <old file name> <new file name>'' @ [newline]
      | Renamed \<Rightarrow> ''File renamed/moved successfully.'' @ [newline]
      | Rename_failed \<Rightarrow> ''Failed to rename/move the file.'' @ [newline])"

section \<open>searchwords\<close>

definition scan_words :: "nat \<Rightarrow> char list \<Rightarrow> cstring list" where
  "scan_words width content = concat (map (chunks width) (tokens whitespace content))"

definition count_words :: "char list \<Rightarrow> cstring \<Rightarrow> nat" where
  "count_words content searched_word =
     length (filter (\<lambda>word. strstr_found (c_str word) searched_word) (scan_words 1023 content))"

datatype search_out = Search_usage | Cannot_open | Found cstring nat cstring

definition builtin_searchwords ::
  "cstring \<Rightarrow> files \<Rightarrow> command_fields \<Rightarrow> file_error + search_out" where
  "builtin_searchwords cwd fs command =
     (if 256 < length cwd + 1 then Inl CwdTooLong
      else case arg_at command 1 of
        Past_array \<Rightarrow> Inl ArgPastArray
      | Null_arg \<Rightarrow> Inl ArgNull
      | Arg a1 \<Rightarrow>
          if 512 < length (file_path cwd a1) + 1 then Inl FileNameOverflow
          else case arg_at command 2 of
            Past_array \<Rightarrow> Inl ArgPastArray
          | Null_arg \<Rightarrow> Inl ArgNull
          | Arg a2 \<Rightarrow>
              if 256 < length a2 + 1 then Inl WordOverflow
              else if arg_count command \<noteq> 4 then Inr Search_usage
              else case fs (file_path cwd a1) of
                     None \<Rightarrow> Inr Cannot_open
                   | Some content \<Rightarrow> Inr (Found a2 (count_words content a2) a1))"

definition search_text :: "search_out \<Rightarrow> string" where
  "search_text out =
     (case out of
        Search_usage \<Rightarrow>
          ''Wrong arguments! Usage for searchwords: searchwords <file name> <searched word>'' @
          [newline] @ ''.''
      | Cannot_open \<Rightarrow> ''Couldn't opened the file.'' @ [newline]
      | Found w n f \<Rightarrow> w @ '' found '' @ dec (int n) @ '' times in file '' @ f @ [newline])"

section \<open>Too few arguments\<close>

lemma arg_at_wf:
  assumes "wf_args command"
  shows "i < arg_count command - 1 \<Longrightarrow> \<exists>a. arg_at command i = Arg a"
    and "i = arg_count command - 1 \<Longrightarrow> arg_at command i = Null_arg"
    and "arg_count command \<le> i \<Longrightarrow> arg_at command i = Past_array"
proof -
  from assms have l: "arg_count command = length (args command)" "2 \<le> length (args command)"
    and n: "None \<notin> set (butlast (args command))" and e: "last (args command) = None"
    by (simp_all add: wf_args_def)
  show "\<exists>a. arg_at command i = Arg a" if "i < arg_count command - 1"
  proof -
    from that l have "butlast (args command) ! i \<in> set (butlast (args command))"
      by (intro nth_mem) simp
    with n that l have "args command ! i \<noteq> None"
      by (metis length_butlast nth_butlast)
    with that l show ?thesis
      by (auto simp: arg_at_def)
  qed
  show "arg_at command i = Null_arg" if "i = arg_count command - 1"
    using that l e by (cases "args command" rule: rev_cases) (auto simp: arg_at_def)
  show "arg_at command i = Past_array" if "arg_count command \<le> i"
    using that l by (simp add: arg_at_def)
qed

lemma searchwords_too_few:
  assumes "wf_args command" and "arg_count command < 4" and "length cwd < 256"
    and "\<forall>a. arg_at command 1 = Arg a \<longrightarrow> length (file_path cwd a) < 512"
  shows "builtin_searchwords cwd fs command = Inl ArgNull"
proof -
  from assms(1) have "2 \<le> arg_count command"
    by (simp add: wf_args_def)
  with assms(2) consider "arg_count command = 2" | "arg_count command = 3"
    by arith
  thus ?thesis
  proof cases
    case 1
    with arg_at_wf(2) [OF assms(1), of 1] assms(3) show ?thesis
      by (simp add: builtin_searchwords_def)
  next
    case 2
    with arg_at_wf(1) [OF assms(1), of 1] arg_at_wf(2) [OF assms(1), of 2] assms(3,4) show ?thesis
      by (auto simp: builtin_searchwords_def)
  qed
qed

lemma rename_too_few:
  assumes "wf_args command" and "arg_count command < 4" and "length cwd < 256"
    and "\<forall>a. arg_at command 1 = Arg a \<longrightarrow> length (file_path cwd a) < 512"
  shows "builtin_rename cwd fs command = Inl ArgNull"
proof -
  from assms(1) have "2 \<le> arg_count command"
    by (simp add: wf_args_def)
  with assms(2) consider "arg_count command = 2" | "arg_count command = 3"
    by arith
  thus ?thesis
  proof cases
    case 1
    with arg_at_wf(2) [OF assms(1), of 1] assms(3) show ?thesis
      by (simp add: builtin_rename_def)
  next
    case 2
    with arg_at_wf(1) [OF assms(1), of 1] arg_at_wf(2) [OF assms(1), of 2] assms(3,4) show ?thesis
      by (auto simp: builtin_rename_def)
  qed
qed

text \<open>
  The usage messages of \<open>searchwords\<close> and \<open>rename\<close> are reached only with too
  many arguments: both branches format \<open>args[1]\<close> and \<open>args[2]\<close> before they test the
  count, so for a well-formed argument vector with fewer than two arguments they pass
  \<open>NULL\<close> to \<open>sprintf\<close> first.
\<close>

theorem usage_only_with_too_many:
  assumes "wf_args command"
  shows "(builtin_searchwords cwd fs command = Inr Search_usage \<longrightarrow> 4 < arg_count command) \<and>
         (builtin_rename cwd fs command = Inr (Rename_usage, fs') \<longrightarrow> 4 < arg_count command)"
proof -
  from assms have "2 \<le> arg_count command"
    by (simp add: wf_args_def)
  then consider "arg_count command = 2" | "arg_count command = 3" | "arg_count command = 4"
    | "4 < arg_count command"
    by arith
  thus ?thesis
  proof cases
    case 1
    with arg_at_wf(2) [OF assms, of 1] show ?thesis
      by (simp add: builtin_searchwords_def builtin_rename_def)
  next
    case 2
    with arg_at_wf(2) [OF assms, of 2] show ?thesis
      by (simp add: builtin_searchwords_def builtin_rename_def split: arg_read.splits)
  next
    case 3
    thus ?thesis
      by (simp add: builtin_searchwords_def builtin_rename_def split: arg_read.splits option.splits)
  qed simp
qed

theorem usage_only_with_too_many_witness:
  "builtin_searchwords ''/tmp'' Map.empty
     (zero_fields\<lparr>name := ''searchwords'', arg_count := 3,
        args := [Some ''searchwords'', Some ''notes.txt'', None]\<rparr>) = Inl ArgNull \<and>
   builtin_searchwords ''/tmp'' Map.empty
     (zero_fields\<lparr>name := ''searchwords'', arg_count := 5,
        args := [Some ''searchwords'', Some ''a'', Some ''b'', Some ''c'', None]\<rparr>) = Inr Search_usage"
proof -
  define command where "command = zero_fields\<lparr>name := ''searchwords'', arg_count := 5,
        args := [Some ''searchwords'', Some ''a'', Some ''b'', Some ''c'', None]\<rparr>"
  have "wf_args command"
    by (simp add: wf_args_def command_def)
  from usage_only_with_too_many [OF this, of "''/tmp''" Map.empty Map.empty] show ?thesis
    by (simp add: builtin_searchwords_def arg_at_def file_path_def command_def)
qed

section \<open>What searchwords counts\<close>

lemma scan_words_short:
  assumes "\<forall>t \<in> set (tokens whitespace content). length t \<le> width"
  shows "scan_words width content = tokens whitespace content"
  using assms by (simp add: scan_words_def concat_chunks_short)

lemma count_words_short:
  assumes "\<forall>t \<in> set (tokens whitespace content). length t \<le> 1023" and "nul \<notin> set content"
  shows "count_words content w = length (filter (sublist w) (tokens whitespace content))"
proof -
  have "c_str t = t" if "t \<in> set (tokens whitespace content)" for t
    using tokens_subset [OF that] assms(2) by (intro c_str_id) auto
  hence "filter (\<lambda>word. strstr_found (c_str word) w) (tokens whitespace content) =
      filter (sublist w) (tokens whitespace content)"
    by (intro filter_cong refl) (simp add: strstr_found_iff_sublist)
  thus ?thesis
    by (simp add: count_words_def scan_words_short [OF assms(1)])
qed

text \<open>
  C34. \<open>searchwords file word\<close> prints the number of words of the file that contain the
  searched text, where the words are the pieces between white space, when the file has
  no NUL byte and no word longer than 1023 characters and the strings fit their arrays.
\<close>

theorem searchwords_counts:
  assumes "arg_count command = 4" and "arg_at command 1 = Arg f" and "arg_at command 2 = Arg w"
    and "length cwd < 256" and "length (file_path cwd f) < 512" and "length w < 256"
    and "fs (file_path cwd f) = Some content" and "nul \<notin> set content"
    and "\<forall>t \<in> set (tokens whitespace content). length t \<le> 1023"
  shows "builtin_searchwords cwd fs command =
           Inr (Found w (length (filter (sublist w) (tokens whitespace content))) f)"
  using assms(1-7) by (simp add: builtin_searchwords_def count_words_short [OF assms(9,8)])

theorem searchwords_counts_witness:
  "builtin_searchwords ''/tmp'' [''/tmp/notes.txt'' \<mapsto> ''cat concat dog'' @ [newline] @ ''scatter'']
     (zero_fields\<lparr>name := ''searchwords'', arg_count := 4,
        args := [Some ''searchwords'', Some ''notes.txt'', Some ''cat'', None]\<rparr>) =
   Inr (Found ''cat'' 3 ''notes.txt'')"
proof -
  define command where "command = zero_fields\<lparr>name := ''searchwords'', arg_count := 4,
        args := [Some ''searchwords'', Some ''notes.txt'', Some ''cat'', None]\<rparr>"
  define content where "content = ''cat concat dog'' @ [newline] @ ''scatter''"
  have t: "tokens whitespace content = [''cat'', ''concat'', ''dog'', ''scatter'']"
    unfolding content_def by code_simp
  have h: "arg_count command = 4" "arg_at command 1 = Arg ''notes.txt''"
    "arg_at command 2 = Arg ''cat''" "length ''/tmp'' < 256"
    "length (file_path ''/tmp'' ''notes.txt'') < 512" "length ''cat'' < 256"
    "[''/tmp/notes.txt'' \<mapsto> content] (file_path ''/tmp'' ''notes.txt'') = Some content"
    "nul \<notin> set content" "\<forall>t \<in> set (tokens whitespace content). length t \<le> 1023"
    unfolding t by (simp_all add: command_def arg_at_def file_path_def content_def)
  have c: "length (filter (sublist ''cat'') [''cat'', ''concat'', ''dog'', ''scatter'']) = 3"
    by (simp add: strstr_found_iff_sublist [symmetric])
  from searchwords_counts [of command "''notes.txt''" "''cat''" "''/tmp''"
      "[''/tmp/notes.txt'' \<mapsto> content]" content, OF h]
  have "builtin_searchwords ''/tmp'' [''/tmp/notes.txt'' \<mapsto> content] command =
      Inr (Found ''cat'' 3 ''notes.txt'')"
    by (simp only: t c)
  thus ?thesis
    by (simp add: command_def content_def)
qed

section \<open>What rename does to the files\<close>

lemma sys_rename_Some:
  assumes "fs old = Some content" and "old \<noteq> new"
  shows "sys_rename old new fs = Some ((fs(old := None))(new \<mapsto> content))"
  using assms by (simp add: sys_rename_def)

text \<open>
  \<open>rename old new\<close> moves the content of \<open>cwd/old\<close> to \<open>cwd/new\<close>: afterwards
  the new path holds what the old one held, the old path is gone, and every other file
  is unchanged; when the old file does not exist the files are unchanged and the failure
  is reported.
\<close>

theorem rename_moves:
  assumes "arg_count command = 4" and "arg_at command 1 = Arg a1" and "arg_at command 2 = Arg a2"
    and "length cwd < 256" and "length (file_path cwd a1) < 512"
    and "length (file_path cwd a2) < 512" and "a1 \<noteq> a2"
  shows "builtin_rename cwd fs command =
           (case fs (file_path cwd a1) of
              None \<Rightarrow> Inr (Rename_failed, fs)
            | Some content \<Rightarrow>
                Inr (Renamed, (fs(file_path cwd a1 := None))(file_path cwd a2 \<mapsto> content)))"
  using assms
  by (simp add: builtin_rename_def sys_rename_def file_path_def split: option.splits)

theorem rename_moves_witness:
  "builtin_rename ''/tmp'' [''/tmp/a'' \<mapsto> ''text'']
     (zero_fields\<lparr>name := ''rename'', arg_count := 4,
        args := [Some ''rename'', Some ''a'', Some ''b'', None]\<rparr>) =
   Inr (Renamed, [''/tmp/b'' \<mapsto> ''text''])"
proof -
  define command where "command = zero_fields\<lparr>name := ''rename'', arg_count := 4,
        args := [Some ''rename'', Some ''a'', Some ''b'', None]\<rparr>"
  have h: "arg_count command = 4" "arg_at command 1 = Arg ''a''" "arg_at command 2 = Arg ''b''"
    "length ''/tmp'' < 256" "length (file_path ''/tmp'' ''a'') < 512"
    "length (file_path ''/tmp'' ''b'') < 512" "''a'' \<noteq> ''b''"
    by (simp_all add: command_def arg_at_def file_path_def)
  from rename_moves [OF h, of "[''/tmp/a'' \<mapsto> ''text'']"] show ?thesis
    by (simp add: command_def file_path_def fun_upd_twist)
qed

end
