(* ===== verification/PsTree.thy ===== *)
theory PsTree
  imports Numbers
begin

text \<open>
  The kernel module \<open>src/module/mymodule.c\<close>: \<open>pstree\<close>, which walks the children of a
  task and writes one line to the kernel log for every edge of the process tree, and
  \<open>simple_init\<close>, which looks up the task of the module parameter \<open>pid\<close> and starts the
  walk.

  A task is a value of the datatype \<open>task\<close>: its \<open>pid\<close> and \<open>start_time\<close>, the same two
  fields of the task its \<open>parent\<close> pointer leads to, and the list of its children in the
  order of the kernel's \<open>children\<close> list. The lookup of a pid is a parameter
  (\<open>find_task\<close>); it returns \<open>None\<close> where \<open>get_pid_task\<close> returns \<open>NULL\<close>, and the
  walk of a \<open>NULL\<close> task is the error \<open>NullTask\<close>. What \<open>printk\<close> writes is a list of
  \<open>log_line\<close> values, and \<open>line_text\<close> is the text of one. The recursion over the
  children is a pair of functions defined together, \<open>pstree\<close> for a task and
  \<open>pstree_children\<close> for the loop over its children with the flag \<open>is_eldest\<close>.
  Locking of the task list and the depth of the kernel stack are not modelled.

  The lemmas show that on a tree whose parent fields are consistent the log holds every
  edge of the tree exactly once, parents before children, that the first child of every
  task and no other is marked, and how many lines are written.
\<close>

section \<open>Tasks and log lines\<close>

datatype task =
  Task (pid: int) (start_time: int) (parent_pid: int) (parent_start_time: int)
    (children: "task list")

datatype log_line = Edge int int int int | Eldest int int

definition node_text :: "int \<Rightarrow> int \<Rightarrow> string" where
  "node_text p t = [dquote] @ ''PID:'' @ dec p @ '', Creation Time:'' @ dec t @ [dquote]"

definition line_text :: "log_line \<Rightarrow> string" where
  "line_text l =
     (case l of
        Edge pp pt p t \<Rightarrow> node_text pp pt @ '' ->'' @ node_text p t @ [newline]
      | Eldest p t \<Rightarrow> node_text p t @ ''[color=blue]'' @ [newline])"

section \<open>The walk\<close>

fun pstree :: "task \<Rightarrow> int \<Rightarrow> bool \<Rightarrow> log_line list"
  and pstree_children :: "task list \<Rightarrow> int \<Rightarrow> bool \<Rightarrow> log_line list" where
  "pstree (Task p t pp pt cs) pid_arg eldest =
     (if pid_arg \<noteq> 0
      then Edge pp pt p t # (if eldest then [Eldest p t] else [])
      else []) @
     pstree_children cs p True"
| "pstree_children [] pid_arg is_eldest = []"
| "pstree_children (ts # rest) pid_arg is_eldest =
     pstree ts pid_arg is_eldest @ pstree_children rest pid_arg False"

datatype module_error = NullTask

definition simple_init :: "(int \<Rightarrow> task option) \<Rightarrow> int \<Rightarrow> module_error + log_line list" where
  "simple_init find_task pid_param =
     (case find_task pid_param of
        None \<Rightarrow> Inl NullTask
      | Some ts \<Rightarrow> Inr (pstree ts 0 False))"

definition simple_exit :: string where
  "simple_exit = ''Goodbye from the kernel.'' @ [newline]"

section \<open>The tree a log describes\<close>

fun tasks :: "task \<Rightarrow> task list" and tasks_list :: "task list \<Rightarrow> task list" where
  "tasks (Task p t pp pt cs) = Task p t pp pt cs # tasks_list cs"
| "tasks_list [] = []"
| "tasks_list (c # cs) = tasks c @ tasks_list cs"

fun consistent :: "task \<Rightarrow> bool" and consistent_list :: "int \<Rightarrow> int \<Rightarrow> task list \<Rightarrow> bool" where
  "consistent (Task p t pp pt cs) \<longleftrightarrow> p \<noteq> 0 \<and> consistent_list p t cs"
| "consistent_list p t [] \<longleftrightarrow> True"
| "consistent_list p t (c # cs) \<longleftrightarrow>
     parent_pid c = p \<and> parent_start_time c = t \<and> consistent c \<and> consistent_list p t cs"

fun edges :: "task \<Rightarrow> (int \<times> int) list" and edges_list :: "int \<Rightarrow> task list \<Rightarrow> (int \<times> int) list" where
  "edges (Task p t pp pt cs) = edges_list p cs"
| "edges_list p [] = []"
| "edges_list p (c # cs) = (p, pid c) # edges c @ edges_list p cs"

definition logged_edges :: "log_line list \<Rightarrow> (int \<times> int) list" where
  "logged_edges ls = concat (map (\<lambda>l. case l of Edge pp pt p t \<Rightarrow> [(pp, p)] | Eldest p t \<Rightarrow> []) ls)"

definition marked :: "log_line list \<Rightarrow> int list" where
  "marked ls = concat (map (\<lambda>l. case l of Edge pp pt p t \<Rightarrow> [] | Eldest p t \<Rightarrow> [p]) ls)"

fun eldest_children :: "task \<Rightarrow> int list" and eldest_list :: "bool \<Rightarrow> task list \<Rightarrow> int list" where
  "eldest_children (Task p t pp pt cs) = eldest_list True cs"
| "eldest_list first [] = []"
| "eldest_list first (c # cs) = (if first then [pid c] else []) @ eldest_children c @ eldest_list False cs"

lemma logged_edges_simps [simp]:
  "logged_edges [] = []"
  "logged_edges (Edge pp pt p t # ls) = (pp, p) # logged_edges ls"
  "logged_edges (Eldest p t # ls) = logged_edges ls"
  "logged_edges (ls @ ls') = logged_edges ls @ logged_edges ls'"
  by (simp_all add: logged_edges_def)

lemma marked_simps [simp]:
  "marked [] = []"
  "marked (Edge pp pt p t # ls) = marked ls"
  "marked (Eldest p t # ls) = p # marked ls"
  "marked (ls @ ls') = marked ls @ marked ls'"
  by (simp_all add: marked_def)

lemma logged_edges_walk:
  "consistent ts \<Longrightarrow> logged_edges (pstree ts 0 e) = edges ts"
  "consistent_list p t cs \<Longrightarrow> p \<noteq> 0 \<Longrightarrow> logged_edges (pstree_children cs p e) = edges_list p cs"
proof (induction ts and p t cs arbitrary: e and e rule: consistent_consistent_list.induct)
  case (3 p t c cs)
  obtain q u qq qu ds where c: "c = Task q u qq qu ds"
    by (cases c)
  from 3 c show ?case
    by simp
qed simp_all

lemma marked_walk:
  "pid ts \<noteq> 0 \<Longrightarrow> consistent ts \<Longrightarrow> marked (pstree ts 0 e) = eldest_children ts"
  "consistent_list p t cs \<Longrightarrow> p \<noteq> 0 \<Longrightarrow> marked (pstree_children cs p e) = eldest_list e cs"
proof (induction ts and p t cs arbitrary: e and e rule: consistent_consistent_list.induct)
  case (3 p t c cs)
  obtain q u qq qu ds where c: "c = Task q u qq qu ds"
    by (cases c)
  from 3 c show ?case
    by simp
qed simp_all

lemma edges_tasks:
  "map snd (edges ts) = map pid (tl (tasks ts))"
  "map snd (edges_list p cs) = map pid (tasks_list cs)"
proof (induction ts and p cs rule: edges_edges_list.induct)
  case (3 p c cs)
  obtain q u qq qu ds where c: "c = Task q u qq qu ds"
    by (cases c)
  from 3 c show ?case
    by simp
qed simp_all

lemma length_walk:
  "consistent ts \<Longrightarrow> length (pstree ts 0 e) = length (edges ts) + length (eldest_children ts)"
  "consistent_list p t cs \<Longrightarrow> p \<noteq> 0 \<Longrightarrow>
     length (pstree_children cs p e) = length (edges_list p cs) + length (eldest_list e cs)"
proof (induction ts and p t cs arbitrary: e and e rule: consistent_consistent_list.induct)
  case (3 p t c cs)
  obtain q u qq qu ds where c: "c = Task q u qq qu ds"
    by (cases c)
  from 3 c show ?case
    by simp
qed simp_all

text \<open>
  C25. Loaded with the pid of a task whose tree has consistent parent fields and no pid 0,
  the module logs every edge of the tree exactly once, in preorder (a task before its
  descendants, siblings in the order of the children list), never an edge into the root;
  and it marks exactly the first child of every task.
\<close>

theorem pstree_logs_tree:
  assumes "find_task p = Some ts" and "consistent ts"
  shows "\<exists>ls. simple_init find_task p = Inr ls \<and> logged_edges ls = edges ts \<and>
           marked ls = eldest_children ts \<and> map snd (logged_edges ls) = map pid (tl (tasks ts))"
proof -
  from assms(2) have "pid ts \<noteq> 0"
    by (cases ts) simp
  with assms show ?thesis
    by (simp add: simple_init_def logged_edges_walk marked_walk edges_tasks)
qed

theorem pstree_logs_tree_witness:
  "simple_init (\<lambda>p. if p = 1 then
       Some (Task 1 10 0 0 [Task 2 20 1 10 [Task 4 40 2 20 []], Task 3 30 1 10 []]) else None) 1 =
   Inr [Edge 1 10 2 20, Eldest 2 20, Edge 2 20 4 40, Eldest 4 40, Edge 1 10 3 30]"
proof -
  define ts where "ts = Task 1 10 0 0 [Task 2 20 1 10 [Task 4 40 2 20 []], Task 3 30 1 10 []]"
  define find_task where "find_task = (\<lambda>p :: int. if p = 1 then Some ts else None)"
  have h: "find_task 1 = Some ts" "consistent ts"
    by (simp_all add: find_task_def ts_def)
  from pstree_logs_tree [of find_task 1 ts, OF h] show ?thesis
    by (simp add: simple_init_def find_task_def ts_def)
qed

end
