(* ===== verification/Psvis.thy ===== *)
theory Psvis
  imports Command PsTree
begin

text \<open>
  The builtin \<open>psvis\<close> (lines 820-873 of \<open>src/src/shell-skeleton.c\<close>), which loads the
  kernel module for a pid, cuts the module's lines out of the kernel log and writes them
  as a graph description for \<open>dot\<close>.

  What the branch sees of the system is the record \<open>psvis_os\<close>: the lines of the kernel
  log before the module is loaded, the lines the load appends (a parameter, given
  the pid passed to \<open>insmod\<close>), whether \<open>kill(pid, 0)\<close> finds a process, whether \<open>errno\<close>
  already held \<open>ESRCH\<close> before that call, and whether \<open>dot\<close> succeeds. The branch is a
  function to the commands it hands to \<open>system\<close>, in their order, and the content of
  \<open>deneme3.gv\<close>. \<open>sed '1,Nd'\<close> is \<open>sed_delete\<close>: it drops \<open>N\<close> lines, and with the
  address 0 it is refused and leaves an empty file; \<open>fgets\<close> with a buffer of 1024 bytes
  is \<open>fgets_lines\<close>, which cuts a longer line into pieces of 1023 bytes.
  Printing the \<open>NULL\<close> that \<open>strchr\<close> returns for a line without a quote, and a command
  that does not fit the 512 bytes of \<open>command_exec\<close>, are errors of the model.

  The lemmas show what the graph file holds, that the commands are issued in the order
  the module needs, and which inputs make the branch load the module with a pid that has
  no task.
\<close>

section \<open>The system the branch sees\<close>

record psvis_os =
  log_before :: "string list"
  log_added :: "int \<Rightarrow> string list"
  process_found :: "int \<Rightarrow> bool"
  errno_was_esrch :: bool
  dot_works :: bool

datatype psvis_error = PidArgPastArray | PidArgNull | NullLine | CommandOverflow

datatype psvis_out = Psvis_usage | Invalid_pid | No_graphviz | Drawn

record psvis_result =
  out :: psvis_out
  commands :: "string list"
  gv_file :: "string option"

section \<open>Reading the log\<close>

definition from_quote :: "string \<Rightarrow> string option" where
  "from_quote line = (if dquote \<in> set line then Some (dropWhile (\<lambda>c. c \<noteq> dquote) line) else None)"

fun write_lines :: "string list \<Rightarrow> psvis_error + string" where
  "write_lines [] = Inr []"
| "write_lines (line # rest) =
     (case from_quote line of
        None \<Rightarrow> Inl NullLine
      | Some p \<Rightarrow> (case write_lines rest of Inl e \<Rightarrow> Inl e | Inr text \<Rightarrow> Inr (p @ text)))"

definition fgets_lines :: "string list \<Rightarrow> string list" where
  "fgets_lines log_lines = concat (map (\<lambda>l. chunks 1023 (l @ [newline])) log_lines)"

definition sed_delete :: "int \<Rightarrow> string list \<Rightarrow> string list" where
  "sed_delete count log_lines = (if count \<le> 0 then [] else drop (nat count) log_lines)"

definition gv_text :: "string list \<Rightarrow> psvis_error + string" where
  "gv_text log_lines =
     (case write_lines (fgets_lines log_lines) of
        Inl e \<Rightarrow> Inl e
      | Inr text \<Rightarrow> Inr (''digraph ProcessTree{'' @ [newline] @ text @ ''}'' @ [newline]))"

section \<open>The branch\<close>

definition insmod_command :: "int \<Rightarrow> string" where
  "insmod_command root_pid = ''sudo -S insmod mymodule.ko pid='' @ dec root_pid"

definition sed_command :: "int \<Rightarrow> string" where
  "sed_command count = ''sed '' @ [squote] @ ''1,'' @ dec count @ ''d'' @ [squote] @
     '' deneme.txt > deneme2.txt''"

definition dot_command :: "cstring \<Rightarrow> string" where
  "dot_command png = ''dot -Tpng deneme3.gv -o '' @ png"

definition psvis_check :: "psvis_os \<Rightarrow> command_fields \<Rightarrow> psvis_error + psvis_result + int" where
  "psvis_check os command =
     (if arg_count command \<noteq> 4
      then Inr (Inl \<lparr>out = Psvis_usage, commands = [], gv_file = None\<rparr>)
      else case arg_at command 1 of
        Past_array \<Rightarrow> Inl PidArgPastArray
      | Null_arg \<Rightarrow> Inl PidArgNull
      | Arg a1 \<Rightarrow>
          (let root_pid = atoi a1 in
           if (if process_found os root_pid then errno_was_esrch os else True)
           then Inr (Inl \<lparr>out = Invalid_pid,
                  commands = [''sudo -S dmesg > deneme.txt'', ''wc -l deneme.txt > den.txt''],
                  gv_file = None\<rparr>)
           else Inr (Inr root_pid)))"

definition psvis_draw :: "psvis_os \<Rightarrow> command_fields \<Rightarrow> int \<Rightarrow> psvis_error + psvis_result" where
  "psvis_draw os command root_pid =
     (let count = atoi (dec (int (length (log_before os))));
          loaded = [''sudo -S dmesg > deneme.txt'', ''wc -l deneme.txt > den.txt'',
            insmod_command root_pid, ''sudo -S dmesg > deneme.txt'',
            sed_command count, ''sudo -S rmmod mymodule''];
          deneme2 = sed_delete count (log_before os @ log_added os root_pid)
      in case gv_text deneme2 of
           Inl e \<Rightarrow> Inl e
         | Inr text \<Rightarrow>
             (case arg_at command 2 of
                Past_array \<Rightarrow> Inl PidArgPastArray
              | Null_arg \<Rightarrow> Inl PidArgNull
              | Arg a2 \<Rightarrow>
                  if 512 < length (dot_command a2) + 1 then Inl CommandOverflow
                  else Inr \<lparr>out = (if dot_works os then Drawn else No_graphviz),
                            commands = loaded @ [dot_command a2],
                            gv_file = Some text\<rparr>))"

definition builtin_psvis :: "psvis_os \<Rightarrow> command_fields \<Rightarrow> psvis_error + psvis_result" where
  "builtin_psvis os command =
     (case psvis_check os command of
        Inl e \<Rightarrow> Inl e
      | Inr (Inl early) \<Rightarrow> Inr early
      | Inr (Inr root_pid) \<Rightarrow> psvis_draw os command root_pid)"

section \<open>The graph file\<close>

definition stamped :: "string \<times> log_line \<Rightarrow> string" where
  "stamped pl = fst pl @ butlast (line_text (snd pl))"

definition stamp_ok :: "string \<times> log_line \<Rightarrow> bool" where
  "stamp_ok pl \<longleftrightarrow> dquote \<notin> set (fst pl) \<and> length (fst pl) + length (line_text (snd pl)) \<le> 1023"

lemma line_text_quote: "\<exists>rest. line_text l = dquote # rest @ [newline]"
  by (cases l) (simp_all add: line_text_def node_text_def)

lemma stamped_newline: "stamped pl @ [newline] = fst pl @ line_text (snd pl)"
proof -
  obtain rest where "line_text (snd pl) = dquote # rest @ [newline]"
    using line_text_quote by blast
  thus ?thesis
    by (simp add: stamped_def butlast_append)
qed

lemma from_quote_stamped:
  assumes "dquote \<notin> set pre"
  shows "from_quote (pre @ line_text l) = Some (line_text l)"
proof -
  obtain rest where r: "line_text l = dquote # rest @ [newline]"
    using line_text_quote by blast
  from assms have "dropWhile (\<lambda>c. c \<noteq> dquote) (pre @ dquote # rest @ [newline]) = dquote # rest @ [newline]"
    by (induction pre) auto
  thus ?thesis
    by (simp add: from_quote_def r)
qed

lemma write_lines_stamped:
  assumes "list_all stamp_ok pls"
  shows "write_lines (map (\<lambda>pl. fst pl @ line_text (snd pl)) pls) =
           Inr (concat (map (\<lambda>pl. line_text (snd pl)) pls))"
  using assms by (induction pls) (simp_all add: stamp_ok_def from_quote_stamped)

lemma fgets_lines_stamped:
  assumes "list_all stamp_ok pls"
  shows "fgets_lines (map stamped pls) = map (\<lambda>pl. fst pl @ line_text (snd pl)) pls"
  using assms
  by (induction pls) (simp_all add: fgets_lines_def stamped_newline stamp_ok_def chunks_short)

lemma gv_text_stamped:
  assumes "list_all stamp_ok pls"
  shows "gv_text (map stamped pls) =
           Inr (''digraph ProcessTree{'' @ [newline] @ concat (map (\<lambda>pl. line_text (snd pl)) pls) @
                ''}'' @ [newline])"
  by (simp add: gv_text_def fgets_lines_stamped [OF assms] write_lines_stamped [OF assms])

lemma write_lines_unquoted:
  "\<exists>l \<in> set ls. dquote \<notin> set l \<Longrightarrow> write_lines ls = Inl NullLine"
  by (induction ls) (auto simp: from_quote_def split: sum.splits)

lemma count_lines:
  assumes "int n \<le> INT_MAX"
  shows "atoi (dec (int n)) = int n"
  using assms by (intro atoi_dec) (simp_all add: INT_MAX_def)

lemma builtin_psvis_loaded:
  assumes "arg_count command = 4" and "arg_at command 1 = Arg a1"
    and "process_found os (atoi a1)" and "\<not> errno_was_esrch os"
    and "int (length (log_before os)) \<le> INT_MAX"
  shows "builtin_psvis os command =
     (case gv_text (sed_delete (int (length (log_before os)))
              (log_before os @ log_added os (atoi a1))) of
        Inl e \<Rightarrow> Inl e
      | Inr text \<Rightarrow>
          (case arg_at command 2 of
             Past_array \<Rightarrow> Inl PidArgPastArray
           | Null_arg \<Rightarrow> Inl PidArgNull
           | Arg a2 \<Rightarrow>
               if 512 < length (dot_command a2) + 1 then Inl CommandOverflow
               else Inr \<lparr>out = (if dot_works os then Drawn else No_graphviz),
                         commands = [''sudo -S dmesg > deneme.txt'', ''wc -l deneme.txt > den.txt'',
                           insmod_command (atoi a1), ''sudo -S dmesg > deneme.txt'',
                           sed_command (int (length (log_before os))), ''sudo -S rmmod mymodule''] @
                           [dot_command a2],
                         gv_file = Some text\<rparr>))"
  using assms(1-4)
  by (simp add: builtin_psvis_def psvis_check_def psvis_draw_def Let_def count_lines [OF assms(5)])

lemma psvis_graph_file:
  assumes "arg_count command = 4" and "arg_at command 1 = Arg a1" and "arg_at command 2 = Arg png"
    and "length (dot_command png) < 512"
    and "process_found os (atoi a1)" and "\<not> errno_was_esrch os"
    and "0 < length (log_before os)" and "int (length (log_before os)) \<le> INT_MAX"
    and "log_added os (atoi a1) = map stamped pls" and "list_all stamp_ok pls"
  shows "builtin_psvis os command =
     Inr \<lparr>out = (if dot_works os then Drawn else No_graphviz),
          commands = [''sudo -S dmesg > deneme.txt'', ''wc -l deneme.txt > den.txt'',
            insmod_command (atoi a1), ''sudo -S dmesg > deneme.txt'',
            sed_command (int (length (log_before os))), ''sudo -S rmmod mymodule'',
            dot_command png],
          gv_file = Some (''digraph ProcessTree{'' @ [newline] @
            concat (map (\<lambda>pl. line_text (snd pl)) pls) @ ''}'' @ [newline])\<rparr>"
proof -
  from assms(7,9) have "sed_delete (int (length (log_before os)))
      (log_before os @ log_added os (atoi a1)) = map stamped pls"
    by (simp add: sed_delete_def)
  with assms(3,4) show ?thesis
    unfolding builtin_psvis_loaded [OF assms(1,2,5,6,8)]
    by (simp add: gv_text_stamped [OF assms(10)])
qed

text \<open>
  With a pid that exists, a kernel log that was not empty before, and a log to which
  the load of the module adds only the module's lines, each behind a time stamp without a
  quote, \<open>psvis\<close> issues its seven commands in their order and writes a graph file that
  holds the header, the text of every line of the module with its time stamp cut off, and
  the closing brace.
\<close>

theorem psvis_graph:
  assumes "arg_count command = 4" and "arg_at command 1 = Arg a1" and "arg_at command 2 = Arg png"
    and "length (dot_command png) < 512"
    and "process_found os (atoi a1)" and "\<not> errno_was_esrch os"
    and "0 < length (log_before os)" and "int (length (log_before os)) \<le> INT_MAX"
    and "log_added os (atoi a1) = map stamped pls" and "list_all stamp_ok pls"
  shows "builtin_psvis os command =
     Inr \<lparr>out = (if dot_works os then Drawn else No_graphviz),
          commands = [''sudo -S dmesg > deneme.txt'', ''wc -l deneme.txt > den.txt'',
            insmod_command (atoi a1), ''sudo -S dmesg > deneme.txt'',
            sed_command (int (length (log_before os))), ''sudo -S rmmod mymodule'',
            dot_command png],
          gv_file = Some (''digraph ProcessTree{'' @ [newline] @
            concat (map (\<lambda>pl. line_text (snd pl)) pls) @ ''}'' @ [newline])\<rparr>"
  using assms by (rule psvis_graph_file)

theorem psvis_graph_witness:
  "builtin_psvis
     \<lparr>log_before = [''[ 0.1] boot''],
      log_added = (\<lambda>p. [''[ 9.5] '' @ butlast (line_text (Edge 1 10 2 20))]),
      process_found = (\<lambda>p. p = 1), errno_was_esrch = False, dot_works = True\<rparr>
     (zero_fields\<lparr>name := ''psvis'', arg_count := 4,
        args := [Some ''psvis'', Some ''1'', Some ''t.png'', None]\<rparr>) =
   Inr \<lparr>out = Drawn,
        commands = [''sudo -S dmesg > deneme.txt'', ''wc -l deneme.txt > den.txt'',
          ''sudo -S insmod mymodule.ko pid=1'', ''sudo -S dmesg > deneme.txt'',
          ''sed '' @ [squote] @ ''1,1d'' @ [squote] @ '' deneme.txt > deneme2.txt'',
          ''sudo -S rmmod mymodule'', ''dot -Tpng deneme3.gv -o t.png''],
        gv_file = Some (''digraph ProcessTree{'' @ [newline] @ line_text (Edge 1 10 2 20) @
          ''}'' @ [newline])\<rparr>"
proof -
  define command where "command = zero_fields\<lparr>name := ''psvis'', arg_count := 4,
        args := [Some ''psvis'', Some ''1'', Some ''t.png'', None]\<rparr>"
  define os where "os = \<lparr>log_before = [''[ 0.1] boot''],
      log_added = (\<lambda>p :: int. [''[ 9.5] '' @ butlast (line_text (Edge 1 10 2 20))]),
      process_found = (\<lambda>p. p = 1), errno_was_esrch = False, dot_works = True\<rparr>"
  define pls where "pls = [(''[ 9.5] '', Edge 1 10 2 20)]"
  have d: "dec 1 = ''1''" "dec 10 = ''10''" "dec 2 = ''2''" "dec 20 = ''20''"
    by code_simp+
  have a: "atoi ''1'' = 1"
    using atoi_dec [of 1] by (simp add: d INT_MAX_def)
  have h: "arg_count command = 4" "arg_at command 1 = Arg ''1''" "arg_at command 2 = Arg ''t.png''"
    "length (dot_command ''t.png'') < 512" "process_found os (atoi ''1'')" "\<not> errno_was_esrch os"
    "0 < length (log_before os)" "int (length (log_before os)) \<le> INT_MAX"
    "log_added os (atoi ''1'') = map stamped pls" "list_all stamp_ok pls"
    by (simp_all add: command_def arg_at_def dot_command_def os_def a INT_MAX_def pls_def
        stamped_def stamp_ok_def line_text_def node_text_def d)
  from psvis_graph [OF h] show ?thesis
    by (simp add: command_def os_def pls_def a insmod_command_def sed_command_def dot_command_def d)
qed

text \<open>
  One line without a quote among the lines that follow the old log, such as a message
  of the kernel about the load of the module, makes \<open>psvis\<close> pass the \<open>NULL\<close> that
  \<open>strchr\<close> returns to \<open>fprintf\<close>.
\<close>

theorem psvis_unquoted_line:
  assumes "arg_count command = 4" and "arg_at command 1 = Arg a1"
    and "process_found os (atoi a1)" and "\<not> errno_was_esrch os"
    and "0 < length (log_before os)" and "int (length (log_before os)) \<le> INT_MAX"
    and "l \<in> set (log_added os (atoi a1))" and "dquote \<notin> set l"
  shows "builtin_psvis os command = Inl NullLine"
proof -
  let ?ls = "log_added os (atoi a1)"
  have "chunks 1023 (l @ [newline]) \<noteq> []"
    by (subst chunks.simps) simp
  moreover from assms(7) have "set (chunks 1023 (l @ [newline])) \<subseteq> set (fgets_lines ?ls)"
    by (auto simp: fgets_lines_def)
  moreover have "dquote \<notin> set c" if "c \<in> set (chunks 1023 (l @ [newline]))" for c
  proof -
    from that have "set c \<subseteq> set (concat (chunks 1023 (l @ [newline])))"
      unfolding set_concat by blast
    with assms(8) show ?thesis
      by auto
  qed
  ultimately have "\<exists>c \<in> set (fgets_lines ?ls). dquote \<notin> set c"
    by (metis last_in_set subsetD)
  hence "gv_text ?ls = Inl NullLine"
    by (simp add: gv_text_def write_lines_unquoted)
  with assms(5) show ?thesis
    unfolding builtin_psvis_loaded [OF assms(1-4,6)] by (simp add: sed_delete_def)
qed

theorem psvis_unquoted_line_witness:
  "builtin_psvis
     \<lparr>log_before = [''[ 0.1] boot''],
      log_added = (\<lambda>p. [''[ 9.4] mymodule: loading out-of-tree module taints kernel.'']),
      process_found = (\<lambda>p. p = 1), errno_was_esrch = False, dot_works = True\<rparr>
     (zero_fields\<lparr>name := ''psvis'', arg_count := 4,
        args := [Some ''psvis'', Some ''1'', Some ''t.png'', None]\<rparr>) = Inl NullLine"
proof -
  define command where "command = zero_fields\<lparr>name := ''psvis'', arg_count := 4,
        args := [Some ''psvis'', Some ''1'', Some ''t.png'', None]\<rparr>"
  define os where "os = \<lparr>log_before = [''[ 0.1] boot''],
      log_added = (\<lambda>p :: int. [''[ 9.4] mymodule: loading out-of-tree module taints kernel.'']),
      process_found = (\<lambda>p. p = 1), errno_was_esrch = False, dot_works = True\<rparr>"
  have "dec 1 = ''1''"
    by code_simp
  hence a: "atoi ''1'' = 1"
    using atoi_dec [of 1] by (simp add: INT_MAX_def)
  have h: "arg_count command = 4" "arg_at command 1 = Arg ''1''"
    "process_found os (atoi ''1'')" "\<not> errno_was_esrch os"
    "0 < length (log_before os)" "int (length (log_before os)) \<le> INT_MAX"
    "''[ 9.4] mymodule: loading out-of-tree module taints kernel.'' \<in> set (log_added os (atoi ''1''))"
    "dquote \<notin> set ''[ 9.4] mymodule: loading out-of-tree module taints kernel.''"
    by (simp_all add: command_def arg_at_def os_def a INT_MAX_def)
  from psvis_unquoted_line [OF h] show ?thesis
    by (simp add: command_def os_def)
qed

section \<open>The shell and the module together\<close>

text \<open>
  C24. The picture is the process tree: when \<open>psvis pid file\<close> is given the pid of a task
  whose tree has consistent parent fields, and the kernel log gains exactly the lines the
  module writes for that pid, each behind a time stamp, the graph file holds the text of
  those lines between the header and the closing brace, and the edges they name are the
  edges of the tree, every one once and parents first.
\<close>

theorem psvis_draws_tree:
  assumes "arg_count command = 4" and "arg_at command 1 = Arg a1" and "arg_at command 2 = Arg png"
    and "length (dot_command png) < 512"
    and "process_found os (atoi a1)" and "\<not> errno_was_esrch os"
    and "0 < length (log_before os)" and "int (length (log_before os)) \<le> INT_MAX"
    and "find_task (atoi a1) = Some ts" and "consistent ts"
    and "length stamps = length (pstree ts 0 False)"
    and "log_added os (atoi a1) = map stamped (zip stamps (pstree ts 0 False))"
    and "list_all stamp_ok (zip stamps (pstree ts 0 False))"
  shows "\<exists>r ls. builtin_psvis os command = Inr r \<and>
    simple_init find_task (atoi a1) = Inr ls \<and> logged_edges ls = edges ts \<and>
    gv_file r = Some (''digraph ProcessTree{'' @ [newline] @ concat (map line_text ls) @ ''}'' @
      [newline])"
proof -
  let ?ls = "pstree ts 0 False"
  have "map (\<lambda>pl. line_text (snd pl)) (zip stamps ?ls) = map line_text (map snd (zip stamps ?ls))"
    by (simp add: comp_def)
  with assms(11) have "map (\<lambda>pl. line_text (snd pl)) (zip stamps ?ls) = map line_text ?ls"
    by simp
  with psvis_graph_file [OF assms(1-8,12,13)] assms(9,10) show ?thesis
    by (simp add: simple_init_def logged_edges_walk)
qed

theorem psvis_draws_tree_witness:
  "\<exists>r. builtin_psvis
     \<lparr>log_before = [''[ 0.1] boot''],
      log_added = (\<lambda>p. map stamped (zip [''[ 9.5] '', ''[ 9.6] '']
        (pstree (Task 1 10 0 0 [Task 2 20 1 10 []]) 0 False))),
      process_found = (\<lambda>p. p = 1), errno_was_esrch = False, dot_works = True\<rparr>
     (zero_fields\<lparr>name := ''psvis'', arg_count := 4,
        args := [Some ''psvis'', Some ''1'', Some ''t.png'', None]\<rparr>) = Inr r \<and>
     gv_file r = Some (''digraph ProcessTree{'' @ [newline] @
       line_text (Edge 1 10 2 20) @ line_text (Eldest 2 20) @ ''}'' @ [newline])"
proof -
  define ts where "ts = Task 1 10 0 0 [Task 2 20 1 10 []]"
  define command where "command = zero_fields\<lparr>name := ''psvis'', arg_count := 4,
        args := [Some ''psvis'', Some ''1'', Some ''t.png'', None]\<rparr>"
  define os where "os = \<lparr>log_before = [''[ 0.1] boot''],
      log_added = (\<lambda>p :: int. map stamped (zip [''[ 9.5] '', ''[ 9.6] ''] (pstree ts 0 False))),
      process_found = (\<lambda>p. p = 1), errno_was_esrch = False, dot_works = True\<rparr>"
  have d: "dec 1 = ''1''" "dec 10 = ''10''" "dec 2 = ''2''" "dec 20 = ''20''"
    by code_simp+
  have a: "atoi ''1'' = 1"
    using atoi_dec [of 1] by (simp add: d INT_MAX_def)
  have w: "pstree ts 0 False = [Edge 1 10 2 20, Eldest 2 20]"
    by (simp add: ts_def)
  have h: "arg_count command = 4" "arg_at command 1 = Arg ''1''" "arg_at command 2 = Arg ''t.png''"
    "length (dot_command ''t.png'') < 512" "process_found os (atoi ''1'')" "\<not> errno_was_esrch os"
    "0 < length (log_before os)" "int (length (log_before os)) \<le> INT_MAX"
    "(\<lambda>p :: int. if p = 1 then Some ts else None) (atoi ''1'') = Some ts" "consistent ts"
    "length [''[ 9.5] '', ''[ 9.6] ''] = length (pstree ts 0 False)"
    "log_added os (atoi ''1'') = map stamped (zip [''[ 9.5] '', ''[ 9.6] ''] (pstree ts 0 False))"
    "list_all stamp_ok (zip [''[ 9.5] '', ''[ 9.6] ''] (pstree ts 0 False))"
    unfolding w
    by (simp_all add: command_def arg_at_def dot_command_def os_def a INT_MAX_def ts_def
        stamp_ok_def line_text_def node_text_def d)
  from psvis_draws_tree [of command "''1''" "''t.png''" os "\<lambda>p. if p = 1 then Some ts else None" ts
      "[''[ 9.5] '', ''[ 9.6] '']", OF h]
  show ?thesis
    by (auto simp: simple_init_def a w command_def os_def ts_def)
qed

text \<open>
  A pid that is not a number reaches the kernel as 0: \<open>atoi\<close> reads 0 from an
  argument that does not start with a digit, a sign or white space, \<open>kill(0, 0)\<close>
  signals the shell's own process group and succeeds, so the check of the pid passes and
  the module is loaded with \<open>pid=0\<close>; the kernel has no task for that pid, and
  \<open>simple_init\<close> walks the \<open>NULL\<close> it gets.
\<close>

theorem psvis_pid_zero:
  assumes "arg_count command = 4" and "arg_at command 1 = Arg a1"
    and "a1 \<noteq> []" and "\<not> isspace (hd a1)" and "\<not> isdigit (hd a1)"
    and "hd a1 \<noteq> CHR ''-''" and "hd a1 \<noteq> CHR ''+''"
    and "process_found os 0" and "\<not> errno_was_esrch os" and "find_task 0 = None"
  shows "\<exists>p. psvis_check os command = Inr (Inr p) \<and> p = 0 \<and>
    simple_init find_task p = Inl NullTask"
proof -
  from assms(3-7) have "strtol a1 = (0, a1)"
    by (intro strtol_no_digits) simp
  hence "atoi a1 = 0"
    by (simp add: atoi_def to_int_def)
  with assms(1,2,8-10) show ?thesis
    by (simp add: psvis_check_def simple_init_def)
qed

theorem psvis_pid_zero_witness:
  "psvis_check
     \<lparr>log_before = [], log_added = (\<lambda>p. []), process_found = (\<lambda>p. p = 0),
      errno_was_esrch = False, dot_works = True\<rparr>
     (zero_fields\<lparr>name := ''psvis'', arg_count := 4,
        args := [Some ''psvis'', Some ''init'', Some ''t.png'', None]\<rparr>) = Inr (Inr 0) \<and>
   simple_init (\<lambda>p. None) 0 = Inl NullTask"
proof -
  define command where "command = zero_fields\<lparr>name := ''psvis'', arg_count := 4,
        args := [Some ''psvis'', Some ''init'', Some ''t.png'', None]\<rparr>"
  define os where "os = \<lparr>log_before = [], log_added = (\<lambda>p :: int. []),
      process_found = (\<lambda>p :: int. p = 0), errno_was_esrch = False, dot_works = True\<rparr>"
  have h: "arg_count command = 4" "arg_at command 1 = Arg ''init''" "''init'' \<noteq> []"
    "\<not> isspace (hd ''init'')" "\<not> isdigit (hd ''init'')" "hd ''init'' \<noteq> CHR ''-''"
    "hd ''init'' \<noteq> CHR ''+''" "process_found os 0" "\<not> errno_was_esrch os"
    "(\<lambda>p :: int. None :: task option) 0 = None"
    by (simp_all add: command_def arg_at_def os_def isspace_def whitespace_def isdigit_def)
  from psvis_pid_zero [of command "''init''" os "\<lambda>p. None", OF h] show ?thesis
    by (simp add: command_def os_def)
qed

end
