(* ===== verification/Shell.thy ===== *)
theory Shell
  imports LineEditor CdHistory Cloc Exec Roll Files Psvis
begin

text \<open>
  The top of the shell in \<open>src/src/shell-skeleton.c\<close>: \<open>print_command\<close> (lines 36-59),
  \<open>show_prompt\<close> (lines 92-98), \<open>process_command\<close> as a whole (lines 545-976: the
  dispatch of theory \<open>Exec\<close> composed with the builtins of the other theories) and the
  loop of \<open>main\<close> (lines 361-384).

  The state the shell itself changes is the record \<open>world\<close>: the line editor with its
  history slot and the terminal mode, the working directory with the directory history,
  the files \<open>rename\<close> moves and the child creates or truncates for a redirection of its
  output (\<open>open_target\<close>; that a target cannot be created is not modelled), the
  number of calls of \<open>rand\<close> so far, and the programs a second \<open>fork\<close> has left
  running when the shell has waited for its child (\<open>jobs\<close>: the code keeps no table
  of them and never reaps them, the field records what the call has left behind in the
  system). What it only
  reads of the system is the record \<open>os_view\<close>, whether \<open>fork\<close> succeeds included. Standard input is a list of bytes, shared
  by the line editor and the \<open>scanf\<close> of \<open>cdh\<close>. One call of \<open>process_command\<close> returns
  the return code, a \<open>report\<close> of what the branch did, the new state and the input that is
  left; undefined behaviour in the shell process is an error that names the component, and
  undefined behaviour in a child process is part of the report, since the shell goes on.

  \<open>main_loop\<close> runs on fuel, one unit for each iteration, because the loop need not end:
  \<open>None\<close> is the loop still running when the fuel is used up. The uninitialised memory
  of each iteration (the stack array of \<open>prompt\<close>, the blocks of \<open>malloc\<close>) is a
  parameter indexed by the number of the iteration.

  The lemmas give the frame of one call (\<open>process_frame\<close>, \<open>spawn_frame\<close>), the
  whole effect of a command that is found (\<open>spawn_found\<close>), the monotonicity of the loop
  in its fuel, and what every iteration and every run keeps (\<open>world_ok\<close>, \<open>later\<close>).
\<close>

section \<open>print_command\<close>

datatype print_error = NullPrinted | WildPrinted | ArgPastVector

fun collect :: "('e + string) list \<Rightarrow> 'e + string" where
  "collect [] = Inr []"
| "collect (x # xs) =
     (case x of
        Inl e \<Rightarrow> Inl e
      | Inr s \<Rightarrow> (case collect xs of Inl e \<Rightarrow> Inl e | Inr t \<Rightarrow> Inr (s @ t)))"

definition yes_no :: "bool \<Rightarrow> string" where
  "yes_no b = (if b then ''yes'' else ''no'')"

definition print_redirect :: "cstring ptr list \<Rightarrow> nat \<Rightarrow> print_error + string" where
  "print_redirect rs i =
     (case rs ! i of
        Null \<Rightarrow> Inr ([tab, tab] @ dec (int i) @ '': N/A'' @ [newline])
      | Ptr t \<Rightarrow> Inr ([tab, tab] @ dec (int i) @ '': '' @ t @ [newline])
      | Wild \<Rightarrow> Inl WildPrinted)"

definition print_arg :: "command_fields \<Rightarrow> nat \<Rightarrow> print_error + string" where
  "print_arg f i =
     (case arg_at f i of
        Past_array \<Rightarrow> Inl ArgPastVector
      | Null_arg \<Rightarrow> Inl NullPrinted
      | Arg a \<Rightarrow> Inr ([tab, tab] @ ''Arg '' @ dec (int i) @ '': '' @ a @ [newline]))"

definition print_stage :: "command_fields \<Rightarrow> print_error + string" where
  "print_stage f =
     collect
       ([Inr (''Command: <'' @ name f @ ''>'' @ [newline]),
         Inr ([tab] @ ''Is Background: '' @ yes_no (background f) @ [newline]),
         Inr ([tab] @ ''Needs Auto-complete: '' @ yes_no (auto_complete f) @ [newline]),
         Inr ([tab] @ ''Redirects:'' @ [newline])] @
        map (print_redirect (redirects f)) [0..<3] @
        [Inr ([tab] @ ''Arguments ('' @ dec (int (arg_count f)) @ ''):'' @ [newline])] @
        map (print_arg f) [0..<arg_count f])"

fun print_command :: "command_t \<Rightarrow> print_error + string" where
  "print_command (Command f nxt) =
     (case print_stage f of
        Inl e \<Rightarrow> Inl e
      | Inr s \<Rightarrow>
          (case nxt of
             Null \<Rightarrow> Inr s
           | Wild \<Rightarrow> Inl WildPrinted
           | Ptr c \<Rightarrow>
               (case print_command c of
                  Inl e \<Rightarrow> Inl e
                | Inr t \<Rightarrow> Inr (s @ [tab] @ ''Piped to:'' @ [newline] @ t))))"

section \<open>show_prompt\<close>

definition sysname :: string where
  "sysname = ''mishell''"

definition show_prompt :: "cstring option \<Rightarrow> cstring \<Rightarrow> cstring \<Rightarrow> string option" where
  "show_prompt user_name host dir =
     (case user_name of
        None \<Rightarrow> None
      | Some u \<Rightarrow>
          if 1024 < length dir + 1 \<or> 1024 < length host + 1 then None
          else Some (u @ ''@'' @ host @ '':'' @ dir @ '' '' @ sysname @ ''$ ''))"

section \<open>process_command\<close>

record os_view =
  chdir_to :: "cstring \<Rightarrow> cstring \<Rightarrow> cstring option"
  dirs :: "cstring \<Rightarrow> (cstring \<times> fs_node) list option"
  search_path :: "cstring option"
  found :: "cstring \<Rightarrow> bool"
  runs :: "cstring \<Rightarrow> bool"
  rand_seq :: "nat \<Rightarrow> int"
  kernel :: psvis_os
  user :: "cstring option"
  hostname :: cstring
  fork_ok :: bool

record world =
  ed :: editor
  env :: shell_env
  disk :: files
  rand_calls :: nat
  jobs :: "exec_call list"

datatype shell_error =
  In_prompt_text | In_prompt prompt_error | In_cd hist_error | In_cloc cloc_error |
  In_roll roll_error | In_file file_error | In_psvis psvis_error | In_free mem_error

datatype report =
  Empty_line | Exit_typed | Cd_done | Cdh_done | Roll_done roll_out |
  Cloc_done cloc_state "nat list" | Rename_done rename_out | Search_done search_out |
  Psvis_done psvis_result | Child_done "exec_error + child_end" | Fork_failed

type_synonym outcome = "shell_error + return_codes \<times> report \<times> world \<times> char list"

definition rand_used :: "roll_out \<Rightarrow> nat" where
  "rand_used res = (case res of Rolled t nums \<Rightarrow> length nums | Rolled_one v \<Rightarrow> 1 | _ \<Rightarrow> 0)"

definition target_path :: "cstring \<Rightarrow> cstring \<Rightarrow> cstring" where
  "target_path dir t = (case t of [] \<Rightarrow> file_path dir t | c # r \<Rightarrow> if c = CHR ''/'' then t else file_path dir t)"

definition open_target :: "cstring \<Rightarrow> redirection \<Rightarrow> files \<Rightarrow> files" where
  "open_target dir r fs =
     (case r of
        From_file t \<Rightarrow> fs
      | To_file t \<Rightarrow> fs(target_path dir t \<mapsto> [])
      | Append_file t \<Rightarrow>
          (case fs (target_path dir t) of None \<Rightarrow> fs(target_path dir t \<mapsto> []) | Some content \<Rightarrow> fs))"

definition opened :: "command_fields \<Rightarrow> redirection option" where
  "opened command =
     (case redirects command ! 0 of
        Wild \<Rightarrow> None
      | Ptr t \<Rightarrow> Some (From_file t)
      | Null \<Rightarrow>
          (case redirects command ! 1 of
             Wild \<Rightarrow> None
           | Ptr t \<Rightarrow> Some (To_file t)
           | Null \<Rightarrow> (case redirects command ! 2 of Ptr t \<Rightarrow> Some (Append_file t) | _ \<Rightarrow> None)))"

definition spawn_files :: "os_view \<Rightarrow> command_fields \<Rightarrow> world \<Rightarrow> files" where
  "spawn_files os command w =
     (case resolve_path (search_path os) (found os) (name command) of
        Inl e \<Rightarrow> disk w
      | Inr paths \<Rightarrow>
          (case opened command of
             None \<Rightarrow> disk w
           | Some r \<Rightarrow> open_target (cwd (env w)) r (disk w)))"

definition detached :: "exec_error + child_end \<Rightarrow> exec_call list" where
  "detached r = (case r of Inr (Background_replaced call) \<Rightarrow> [call] | _ \<Rightarrow> [])"

definition spawn :: "os_view \<Rightarrow> command_fields \<Rightarrow> char list \<Rightarrow> world \<Rightarrow> outcome" where
  "spawn os command stdin w =
     (if fork_ok os then
        Inr (SUCCESS, Child_done (launch (search_path os) (found os) (runs os) command),
             w\<lparr>disk := spawn_files os command w,
               jobs := jobs w @ detached (launch (search_path os) (found os) (runs os) command)\<rparr>,
             stdin)
      else Inr (SUCCESS, Fork_failed, w, stdin))"

definition run_cd :: "os_view \<Rightarrow> command_fields \<Rightarrow> char list \<Rightarrow> world \<Rightarrow> outcome" where
  "run_cd os command stdin w =
     (case builtin_cd (chdir_to os) command (env w) of
        None \<Rightarrow> spawn os command stdin w
      | Some (Inl e) \<Rightarrow> Inl (In_cd e)
      | Some (Inr env') \<Rightarrow> Inr (SUCCESS, Cd_done, w\<lparr>env := env'\<rparr>, stdin))"

definition run_cdh :: "os_view \<Rightarrow> char list \<Rightarrow> world \<Rightarrow> outcome" where
  "run_cdh os stdin w =
     (case builtin_cdh (chdir_to os) (case stdin of [] \<Rightarrow> None | c # rest \<Rightarrow> Some c) (env w) of
        Inl e \<Rightarrow> Inl (In_cd e)
      | Inr env' \<Rightarrow>
          Inr (SUCCESS, Cdh_done, w\<lparr>env := env'\<rparr>,
               if history_file (env w) = None then stdin else drop 1 stdin))"

definition run_roll :: "os_view \<Rightarrow> command_fields \<Rightarrow> char list \<Rightarrow> world \<Rightarrow> outcome" where
  "run_roll os command stdin w =
     (case builtin_roll (\<lambda>j. rand_seq os (rand_calls w + j)) command of
        Inl e \<Rightarrow> Inl (In_roll e)
      | Inr res \<Rightarrow>
          Inr (SUCCESS, Roll_done res, w\<lparr>rand_calls := rand_calls w + rand_used res\<rparr>, stdin))"

definition run_builtin ::
  "os_view \<Rightarrow> cstring \<Rightarrow> command_fields \<Rightarrow> char list \<Rightarrow> world \<Rightarrow> outcome" where
  "run_builtin os b command stdin w =
     (if b = ''cd'' then run_cd os command stdin w
      else if b = ''cdh'' then run_cdh os stdin w
      else if b = ''roll'' then run_roll os command stdin w
      else if b = ''cloc'' then
        (case builtin_cloc (cwd (env w)) (dirs os) command of
           Inl e \<Rightarrow> Inl (In_cloc e)
         | Inr (st, totals) \<Rightarrow> Inr (SUCCESS, Cloc_done st totals, w, stdin))
      else if b = ''rename'' \<or> b = ''mvsf'' then
        (case builtin_rename (cwd (env w)) (disk w) command of
           Inl e \<Rightarrow> Inl (In_file e)
         | Inr (res, fs') \<Rightarrow> Inr (SUCCESS, Rename_done res, w\<lparr>disk := fs'\<rparr>, stdin))
      else if b = ''searchwords'' then
        (case builtin_searchwords (cwd (env w)) (disk w) command of
           Inl e \<Rightarrow> Inl (In_file e)
         | Inr res \<Rightarrow> Inr (SUCCESS, Search_done res, w, stdin))
      else
        (case builtin_psvis (kernel os) command of
           Inl e \<Rightarrow> Inl (In_psvis e)
         | Inr res \<Rightarrow> Inr (SUCCESS, Psvis_done res, w, stdin)))"

definition process_command :: "os_view \<Rightarrow> command_fields \<Rightarrow> char list \<Rightarrow> world \<Rightarrow> outcome" where
  "process_command os command stdin w =
     (case dispatch_command command of
        Return_now r \<Rightarrow> Inr (r, if r = EXIT then Exit_typed else Empty_line, w, stdin)
      | Run_builtin b \<Rightarrow> run_builtin os b command stdin w
      | Spawn \<Rightarrow> spawn os command stdin w)"

section \<open>main\<close>

datatype iteration_end = Stop "shell_error + world \<times> report list" | Again report world "char list"

definition iteration ::
  "os_view \<Rightarrow> (nat \<Rightarrow> command_t) \<Rightarrow> char list \<Rightarrow> char list \<Rightarrow> world \<Rightarrow> iteration_end" where
  "iteration os junk stack stdin w =
     (case show_prompt (user os) (hostname os) (cwd (env w)) of
        None \<Rightarrow> Stop (Inl In_prompt_text)
      | Some ps \<Rightarrow>
          (case prompt junk stack ps stdin (ed w) zero_command of
             Inl e \<Rightarrow> Stop (Inl (In_prompt e))
           | Inr r \<Rightarrow>
               (case parsed r of
                  None \<Rightarrow> Stop (Inr (w\<lparr>ed := final r\<rparr>, []))
                | Some c \<Rightarrow>
                    if code r = EXIT then Stop (Inr (w\<lparr>ed := final r\<rparr>, []))
                    else
                      (case process_command os (command_t.fields c) (unread r) (w\<lparr>ed := final r\<rparr>) of
                         Inl e \<Rightarrow> Stop (Inl e)
                       | Inr (rc, rep, w', stdin') \<Rightarrow>
                           if rc = EXIT then Stop (Inr (w', [rep]))
                           else
                             (case free_command c of
                                Inl e \<Rightarrow> Stop (Inl (In_free e))
                              | Inr n \<Rightarrow> Again rep w' stdin')))))"

definition add_report :: "report \<Rightarrow> shell_error + world \<times> report list \<Rightarrow> shell_error + world \<times> report list" where
  "add_report rep = map_sum id (\<lambda>(wf, reps). (wf, rep # reps))"

fun main_loop ::
  "nat \<Rightarrow> os_view \<Rightarrow> (nat \<Rightarrow> nat \<Rightarrow> command_t) \<Rightarrow> (nat \<Rightarrow> char list) \<Rightarrow> nat \<Rightarrow> char list \<Rightarrow> world \<Rightarrow>
     (shell_error + world \<times> report list) option" where
  "main_loop 0 os junk stack i stdin w = None"
| "main_loop (Suc fuel) os junk stack i stdin w =
     (case iteration os (junk i) (stack i) stdin w of
        Stop r \<Rightarrow> Some r
      | Again rep w' stdin' \<Rightarrow>
          map_option (add_report rep) (main_loop fuel os junk stack (Suc i) stdin' w'))"

definition main :: "nat \<Rightarrow> os_view \<Rightarrow> (nat \<Rightarrow> nat \<Rightarrow> command_t) \<Rightarrow> (nat \<Rightarrow> char list) \<Rightarrow> char list \<Rightarrow> world \<Rightarrow>
     (shell_error + world \<times> report list) option" where
  "main fuel os junk stack stdin w =
     map_option (map_sum id (\<lambda>(wf, reps). (wf\<lparr>ed := (ed wf)\<lparr>screen := screen (ed wf) @ [newline]\<rparr>\<rparr>, reps)))
       (main_loop fuel os junk stack 0 stdin w)"

section \<open>The debug printer\<close>

lemma collect_Inr [simp]: "collect (map Inr ss) = Inr (concat ss)"
  by (induction ss) simp_all

lemma collect_append:
  "collect (xs @ ys) =
     (case collect xs of Inl e \<Rightarrow> Inl e
      | Inr s \<Rightarrow> (case collect ys of Inl e \<Rightarrow> Inl e | Inr t \<Rightarrow> Inr (s @ t)))"
  by (induction xs) (auto split: sum.splits)

lemma collect_error_last:
  assumes "\<forall>x \<in> set xs. \<exists>s. x = Inr s"
  shows "collect (xs @ [Inl e]) = Inl e"
  using assms by (induction xs) auto

lemma print_stage_wf:
  assumes "wf_args f" and "Wild \<notin> set (redirects f)" and "length (redirects f) = 3"
  shows "print_stage f = Inl NullPrinted"
proof -
  from assms(1) have n: "2 \<le> arg_count f"
    by (simp add: wf_args_def)
  then obtain k where k: "arg_count f = Suc k"
    by (cases "arg_count f") simp_all
  have last: "print_arg f k = Inl NullPrinted"
    using arg_at_wf(2) [OF assms(1), of k] k by (simp add: print_arg_def)
  have args: "\<exists>s. print_arg f i = Inr s" if "i < k" for i
    using arg_at_wf(1) [OF assms(1), of i] that k by (auto simp: print_arg_def)
  have reds: "\<exists>s. print_redirect (redirects f) i = Inr s" if "i < 3" for i
  proof -
    from that assms(3) have "redirects f ! i \<in> set (redirects f)"
      by simp
    with assms(2) show ?thesis
      by (cases "redirects f ! i") (auto simp: print_redirect_def)
  qed
  let ?xs = "[Inr (''Command: <'' @ name f @ ''>'' @ [newline]),
       Inr ([tab] @ ''Is Background: '' @ yes_no (background f) @ [newline]),
       Inr ([tab] @ ''Needs Auto-complete: '' @ yes_no (auto_complete f) @ [newline]),
       Inr ([tab] @ ''Redirects:'' @ [newline])] @
      map (print_redirect (redirects f)) [0..<3] @
      [Inr ([tab] @ ''Arguments ('' @ dec (int (arg_count f)) @ ''):'' @ [newline])] @
      map (print_arg f) [0..<k]"
  have "\<forall>x \<in> set ?xs. \<exists>s. x = Inr s"
    using args reds by auto
  from collect_error_last [OF this, of NullPrinted] show ?thesis
    by (simp add: print_stage_def k last)
qed

lemma print_command_wf:
  assumes "wf_args f" and "Wild \<notin> set (redirects f)" and "length (redirects f) = 3"
  shows "print_command (Command f nxt) = Inl NullPrinted"
  by (simp add: print_stage_wf [OF assms])

section \<open>What one call changes\<close>

lemma process_exit:
  "name command = ''exit'' \<Longrightarrow> process_command os command stdin w = Inr (EXIT, Exit_typed, w, stdin)"
  by (simp add: process_command_def dispatch_command_def)

lemma process_empty:
  "name command = [] \<Longrightarrow> process_command os command stdin w = Inr (SUCCESS, Empty_line, w, stdin)"
  by (simp add: process_command_def dispatch_command_def)

lemma process_spawn:
  assumes "name command \<notin> set ([[], ''exit'', ''cd''] @ builtin_names)"
  shows "process_command os command stdin w = spawn os command stdin w"
  using assms by (simp add: process_command_def dispatch_command_def list_ex_iff)

lemma spawn_files_no_output:
  assumes "\<forall>t. requested command \<noteq> Some (To_file t)"
    and "\<forall>t. requested command \<noteq> Some (Append_file t)"
  shows "spawn_files os command w = disk w"
  using assms
  by (auto simp: spawn_files_def opened_def requested_def open_target_def
      split: sum.splits ptr.splits)

lemma opened_requested: "no_wild command \<Longrightarrow> opened command = requested command"
  by (auto simp: opened_def requested_def no_wild_def split: ptr.splits)

lemma spawn_creates_target:
  assumes "fork_ok os"
    and "resolve_path (search_path os) (found os) (name command) = Inr paths"
    and "opened command = Some (To_file t)"
  shows "\<exists>rep w'. spawn os command stdin w = Inr (SUCCESS, rep, w', stdin) \<and>
    disk w' (target_path (cwd (env w)) t) = Some []"
  using assms by (simp add: spawn_def spawn_files_def open_target_def)

lemma child_background:
  assumes "child can_exec command path e_path = Inr (Background_replaced call)"
  shows "background command"
  using assms
  by (auto simp: child_def child_redirected_def child_rest_def
      split: ptr.splits option.splits if_splits)

lemma detached_launch:
  "detached (launch shellPath exists can_exec command) =
     (if background command then detached (launch shellPath exists can_exec command) else [])"
  by (auto simp: detached_def launch_def dest: child_background
      split: sum.splits child_end.splits prod.splits)

lemma length_detached [simp]: "length (detached r) \<le> Suc 0"
  by (simp add: detached_def split: sum.splits child_end.splits)

lemma spawn_frame:
  assumes "spawn os command stdin w = Inr (rc, rep, w', stdin')"
  shows "rc = SUCCESS \<and> stdin' = stdin \<and> ed w' = ed w \<and> env w' = env w \<and>
    rand_calls w' = rand_calls w \<and>
    ((\<forall>t. requested command \<noteq> Some (To_file t)) \<and>
       (\<forall>t. requested command \<noteq> Some (Append_file t)) \<longrightarrow> disk w' = disk w) \<and>
    (\<not> background command \<longrightarrow> jobs w' = jobs w) \<and>
    take (length (jobs w)) (jobs w') = jobs w \<and> length (jobs w') \<le> Suc (length (jobs w))"
  using assms detached_launch [of "search_path os" "found os" "runs os" command]
  by (auto simp: spawn_def spawn_files_no_output split: if_splits)

lemmas builtin_defs =
  process_command_def run_builtin_def run_cd_def run_cdh_def run_roll_def dispatch_command_def

lemmas process_defs = builtin_defs spawn_def

lemma process_command_rc:
  assumes "process_command os command stdin w = Inr (rc, rep, w', stdin')"
  shows "rc = process_command_code command"
  using assms
  by (auto simp: process_defs process_command_code_eq
      split: if_splits option.splits sum.splits prod.splits)

lemma process_frame:
  assumes "process_command os command stdin w = Inr (rc, rep, w', stdin')"
  shows "ed w' = ed w \<and>
    (name command \<noteq> ''cd'' \<and> name command \<noteq> ''cdh'' \<longrightarrow> env w' = env w) \<and>
    (name command \<noteq> ''rename'' \<and> name command \<noteq> ''mvsf'' \<and>
       (\<forall>t. requested command \<noteq> Some (To_file t)) \<and>
       (\<forall>t. requested command \<noteq> Some (Append_file t)) \<longrightarrow> disk w' = disk w) \<and>
    (name command \<noteq> ''roll'' \<longrightarrow> rand_calls w' = rand_calls w) \<and>
    rand_calls w \<le> rand_calls w' \<and>
    (\<not> background command \<longrightarrow> jobs w' = jobs w) \<and>
    take (length (jobs w)) (jobs w') = jobs w \<and> length (jobs w') \<le> Suc (length (jobs w)) \<and>
    (name command \<noteq> ''cdh'' \<longrightarrow> stdin' = stdin) \<and>
    (stdin' = stdin \<or> stdin' = drop 1 stdin) \<and>
    (rc = EXIT \<longleftrightarrow> name command = ''exit'')"
  using assms
  by (auto simp: builtin_defs builtin_names_def dest!: spawn_frame
      split: if_splits option.splits sum.splits prod.splits)



section \<open>Commands that are found\<close>

lemma spawn_found:
  assumes "fork_ok os"
    and "resolve_path (search_path os) (found os) (name command) = Inr (path, Some e_path)"
    and "no_wild command" and "runs os e_path"
  shows "spawn os command stdin w =
    Inr (SUCCESS,
      Child_done (Inr (if background command \<and> requested command = None
        then Background_replaced (call_of command e_path) else Replaced (call_of command e_path))),
      w\<lparr>disk := (case requested command of None \<Rightarrow> disk w
                 | Some r \<Rightarrow> open_target (cwd (env w)) r (disk w)),
        jobs := jobs w @ (if background command \<and> requested command = None
                          then [call_of command e_path] else [])\<rparr>,
      stdin)"
  using assms(1,2)
  by (simp add: spawn_def spawn_files_def detached_def opened_requested [OF assms(3)]
      launch_call [of "search_path os" "found os" command path e_path "runs os", OF assms(2-4)])

text \<open>
  C22. What the shell does with a command that is no builtin, is found on \<open>PATH\<close> and
  can be executed, when \<open>fork\<close> succeeds: it returns \<open>SUCCESS\<close>; the child has started
  the file the search found, with the arguments and the one redirection of the command;
  the target of an output redirection exists afterwards, empty after \<open>>\<close> and with its
  old content after \<open>>>\<close>; a command with \<open>&\<close> and no redirection runs in a second
  child that is left running when \<open>process_command\<close> returns, every other command has
  ended by then; nothing else of the state changes.
\<close>

theorem spawn_runs_found:
  assumes "fork_ok os"
    and "resolve_path (search_path os) (found os) (name command) = Inr (path, Some e_path)"
    and "no_wild command" and "runs os e_path"
    and "name command \<notin> set ([[], ''exit'', ''cd''] @ builtin_names)"
  shows "process_command os command stdin w =
    Inr (SUCCESS,
      Child_done (Inr (if background command \<and> requested command = None
        then Background_replaced (call_of command e_path) else Replaced (call_of command e_path))),
      w\<lparr>disk := (case requested command of None \<Rightarrow> disk w
                 | Some r \<Rightarrow> open_target (cwd (env w)) r (disk w)),
        jobs := jobs w @ (if background command \<and> requested command = None
                          then [call_of command e_path] else [])\<rparr>,
      stdin)"
  unfolding process_spawn [OF assms(5)] using assms(1-4) by (rule spawn_found)

theorem spawn_runs_found_witness:
  "process_command
     \<lparr>chdir_to = (\<lambda>d p. None), dirs = (\<lambda>p. None), search_path = Some ''/usr/bin:/bin'',
      found = (\<lambda>f. f = ''/bin/ls''), runs = (\<lambda>f. f = ''/bin/ls''), rand_seq = (\<lambda>j. 4),
      kernel = \<lparr>log_before = [], log_added = (\<lambda>p. []),
        process_found = (\<lambda>p. False), errno_was_esrch = False, dot_works = False\<rparr>,
      user = None, hostname = [], fork_ok = True\<rparr>
     (zero_fields\<lparr>name := ''ls'', background := True, arg_count := 2,
        args := [Some ''ls'', None], redirects := [Null, Null, Null]\<rparr>)
     ''x''
     \<lparr>ed = \<lparr>buf = [], index = 0, oldbuf = [], raw_mode = False, screen = []\<rparr>,
      env = \<lparr>cwd = ''/tmp'', home = None, history_file = None, history_writable = False\<rparr>,
      disk = Map.empty, rand_calls = 0, jobs = []\<rparr> =
   Inr (SUCCESS,
     Child_done (Inr (Background_replaced
       \<lparr>program = ''/bin/ls'', argv = [Some ''ls'', None, None], redirect = None\<rparr>)),
     \<lparr>ed = \<lparr>buf = [], index = 0, oldbuf = [], raw_mode = False, screen = []\<rparr>,
      env = \<lparr>cwd = ''/tmp'', home = None, history_file = None, history_writable = False\<rparr>,
      disk = Map.empty, rand_calls = 0,
      jobs = [\<lparr>program = ''/bin/ls'', argv = [Some ''ls'', None, None], redirect = None\<rparr>]\<rparr>,
     ''x'')"
proof -
  define os where "os = \<lparr>chdir_to = (\<lambda>d p :: cstring. None :: cstring option),
      dirs = (\<lambda>p :: cstring. None :: (cstring \<times> fs_node) list option),
      search_path = Some ''/usr/bin:/bin'', found = (\<lambda>f. f = ''/bin/ls''),
      runs = (\<lambda>f. f = ''/bin/ls''), rand_seq = (\<lambda>j :: nat. 4 :: int),
      kernel = \<lparr>log_before = [], log_added = (\<lambda>p :: int. []), process_found = (\<lambda>p :: int. False),
        errno_was_esrch = False, dot_works = False\<rparr>, user = None, hostname = [],
      fork_ok = True\<rparr>"
  define command where "command = zero_fields\<lparr>name := ''ls'', background := True,
    arg_count := 2, args := [Some ''ls'', None], redirects := [Null, Null, Null]\<rparr>"
  have r: "resolve_path (Some ''/usr/bin:/bin'') (\<lambda>f. f = ''/bin/ls'') ''ls'' =
      Inr (''/bin/ls'', Some ''/bin/ls'')"
    by code_simp
  have h: "fork_ok os"
    "resolve_path (search_path os) (found os) (name command) = Inr (''/bin/ls'', Some ''/bin/ls'')"
    "no_wild command" "runs os ''/bin/ls''"
    "name command \<notin> set ([[], ''exit'', ''cd''] @ builtin_names)"
    by (simp_all add: os_def command_def r no_wild_def builtin_names_def)
  from spawn_runs_found [of os command "''/bin/ls''" "''/bin/ls''", OF h] show ?thesis
    by (simp add: os_def command_def requested_def call_of_def arr_of_def)
qed

section \<open>Fuel\<close>

lemma main_loop_Stop:
  "iteration os (junk i) (stack i) stdin w = Stop r \<Longrightarrow>
     main_loop (Suc fuel) os junk stack i stdin w = Some r"
  by simp

lemma main_loop_Again:
  "iteration os (junk i) (stack i) stdin w = Again rep w' stdin' \<Longrightarrow>
     main_loop (Suc fuel) os junk stack i stdin w =
       map_option (add_report rep) (main_loop fuel os junk stack (Suc i) stdin' w')"
  by simp

declare main_loop.simps(2) [simp del]

lemma main_loop_more_fuel:
  "main_loop fuel os junk stack i stdin w = Some r \<Longrightarrow>
     main_loop (Suc fuel) os junk stack i stdin w = Some r"
proof (induction fuel arbitrary: i stdin w r)
  case (Suc fuel)
  show ?case
  proof (cases "iteration os (junk i) (stack i) stdin w")
    case (Stop x)
    with Suc.prems show ?thesis
      by (simp add: main_loop.simps(2))
  next
    case (Again rep w' stdin')
    with Suc.prems [unfolded main_loop.simps(2) [of fuel]] obtain r' where r': "main_loop fuel os junk stack (Suc i) stdin' w' = Some r'"
      and r: "r = add_report rep r'"
      by auto
    from Suc.IH [OF r'] r show ?thesis
      by (simp add: main_loop.simps(2) [of "Suc fuel"] Again)
  qed
qed simp

lemma main_loop_fuel_le:
  assumes "fuel \<le> fuel'" and "main_loop fuel os junk stack i stdin w = Some r"
  shows "main_loop fuel' os junk stack i stdin w = Some r"
  using assms by (induction fuel' rule: dec_induct) (auto intro: main_loop_more_fuel)

section \<open>What the loop keeps\<close>

definition world_ok :: "world \<Rightarrow> bool" where
  "world_ok w \<longleftrightarrow> length (oldbuf (ed w)) < BUFSZ \<and> nul \<notin> set (oldbuf (ed w))"

definition later :: "world \<Rightarrow> world \<Rightarrow> nat \<Rightarrow> bool" where
  "later w w' n \<longleftrightarrow>
     rand_calls w \<le> rand_calls w' \<and> prefix (jobs w) (jobs w') \<and>
     length (jobs w') \<le> length (jobs w) + n"

lemma later_refl [simp]: "later w w n" "later w (w\<lparr>ed := e\<rparr>) n"
  by (simp_all add: later_def)

lemma add_report_Inr:
  "add_report rep x = Inr (w', reps) \<longleftrightarrow> (\<exists>reps1. x = Inr (w', reps1) \<and> reps = rep # reps1)"
  by (cases x) (auto simp: add_report_def)

lemma later_trans: "later w w1 m \<Longrightarrow> later w1 w2 n \<Longrightarrow> later w w2 (m + n)"
  by (auto simp: later_def)

lemma process_later:
  assumes "process_command os command stdin w = Inr (rc, rep, w', stdin')"
  shows "later w w' 1" and "world_ok w' = world_ok w" and "suffix stdin' stdin"
proof -
  from process_frame [OF assms] have f: "ed w' = ed w" "rand_calls w \<le> rand_calls w'"
    "take (length (jobs w)) (jobs w') = jobs w" "length (jobs w') \<le> Suc (length (jobs w))"
    "stdin' = stdin \<or> stdin' = drop 1 stdin"
    by simp_all
  from f(3) have "prefix (jobs w) (jobs w')"
    by (metis take_is_prefix)
  with f(2,4) show "later w w' 1"
    by (simp add: later_def)
  from f(1) show "world_ok w' = world_ok w"
    by (simp add: world_ok_def)
  from f(5) show "suffix stdin' stdin"
    by (auto simp: suffix_drop)
qed

lemma iteration_Again:
  assumes "iteration os junk stack stdin w = Again rep w' stdin'"
  obtains ps r c rc where "prompt junk stack ps stdin (ed w) zero_command = Inr r"
    and "parsed r = Some c"
    and "process_command os (command_t.fields c) (unread r) (w\<lparr>ed := final r\<rparr>) =
      Inr (rc, rep, w', stdin')"
  using assms
  by (auto simp: iteration_def split: option.splits sum.splits if_splits prod.splits)

lemma iteration_Stop:
  assumes "iteration os junk stack stdin w = Stop (Inr (w', reps))"
  obtains ps r where "prompt junk stack ps stdin (ed w) zero_command = Inr r"
    and "w' = w\<lparr>ed := final r\<rparr>" and "reps = []"
  | ps r c rc rep stdin' where "prompt junk stack ps stdin (ed w) zero_command = Inr r"
    and "parsed r = Some c"
    and "process_command os (command_t.fields c) (unread r) (w\<lparr>ed := final r\<rparr>) =
      Inr (rc, rep, w', stdin')" and "reps = [rep]"
  using assms
  by (auto simp: iteration_def split: option.splits sum.splits if_splits prod.splits)

lemma prompt_world_ok:
  assumes "length stack = BUFSZ" and "world_ok w"
    and "prompt junk stack ps stdin (ed w) command = Inr r"
  shows "world_ok (w\<lparr>ed := final r\<rparr>)"
  using prompt_ok [OF assms(1) _ _ assms(3)] assms(2) by (simp add: world_ok_def editor_ok_def)

lemma iteration_Again_keeps:
  assumes "length stack = BUFSZ" and "world_ok w"
    and "iteration os junk stack stdin w = Again rep w' stdin'"
  shows "world_ok w' \<and> later w w' 1 \<and> suffix stdin' stdin \<and>
    raw_mode (ed w') = raw_mode (ed w)"
proof -
  from assms(3) obtain ps r c rc where p: "prompt junk stack ps stdin (ed w) zero_command = Inr r"
    and c: "parsed r = Some c"
    and pc: "process_command os (command_t.fields c) (unread r) (w\<lparr>ed := final r\<rparr>) =
      Inr (rc, rep, w', stdin')"
    by (rule iteration_Again)
  from process_later [OF pc] prompt_world_ok [OF assms(1,2) p] prompt_unread [OF p]
  have "world_ok w'" and "later w w' 1" and "suffix stdin' stdin"
    by (auto simp: later_def intro: suffix_order.trans)
  moreover from process_frame [OF pc] prompt_raw_mode(1) [OF p] c
  have "raw_mode (ed w') = raw_mode (ed w)"
    by simp
  ultimately show ?thesis
    by simp
qed

lemma iteration_Stop_keeps:
  assumes "length stack = BUFSZ" and "world_ok w"
    and "iteration os junk stack stdin w = Stop (Inr (w', reps))"
  shows "world_ok w' \<and> later w w' (length reps) \<and> length reps \<le> 1"
  using assms(3)
proof (cases rule: iteration_Stop)
  case (1 ps r)
  with prompt_world_ok [OF assms(1,2) 1(1)] show ?thesis
    by simp
next
  case (2 ps r c rc rep stdin')
  from process_later(1,2) [OF 2(3)] prompt_world_ok [OF assms(1,2) 2(1)] 2(4) show ?thesis
    by (simp add: later_def)
qed

lemma main_loop_keeps:
  assumes "\<forall>i. length (stack i) = BUFSZ" and "world_ok w"
    and "main_loop fuel os junk stack i stdin w = Some (Inr (w', reps))"
  shows "world_ok w' \<and> later w w' (length reps) \<and> length reps \<le> fuel"
  using assms(2,3)
proof (induction fuel arbitrary: i stdin w reps)
  case (Suc fuel)
  from assms(1) have len: "length (stack i) = BUFSZ"
    by simp
  show ?case
  proof (cases "iteration os (junk i) (stack i) stdin w")
    case (Stop x)
    with Suc.prems(2) have "iteration os (junk i) (stack i) stdin w = Stop (Inr (w', reps))"
      by (simp add: main_loop.simps(2))
    from iteration_Stop_keeps [OF len Suc.prems(1) this] show ?thesis
      by simp
  next
    case (Again rep w1 stdin1)
    with Suc.prems(2) obtain reps1 where
      m: "main_loop fuel os junk stack (Suc i) stdin1 w1 = Some (Inr (w', reps1))"
      and reps: "reps = rep # reps1"
      by (auto simp: main_loop.simps(2) [of fuel] add_report_Inr)
    from iteration_Again_keeps [OF len Suc.prems(1) Again]
    have w1: "world_ok w1" and l1: "later w w1 1"
      by simp_all
    from Suc.IH [OF w1 m] later_trans [OF l1, of w' "length reps1"] reps show ?thesis
      by simp
  qed
qed simp

end
