(* ===== verification/Run.thy ===== *)
theory Run
  imports Shell
begin

text \<open>
  The runs of the shell as a transition system, beside the loop on fuel of theory
  \<open>Shell\<close>. A step (\<open>shell_step\<close>) is one pass of the loop of \<open>main\<close> (lines 362-380
  of \<open>src/src/shell-skeleton.c\<close>) that goes round, for some content of the
  uninitialised memory the pass reads; \<open>shell_end\<close> is a pass that leaves the loop;
  \<open>run\<close> is a sequence of steps with the reports of its passes, and \<open>finishes\<close> a run
  followed by a pass that leaves the loop.

  The lemmas show by rule induction what every run keeps, that the loop on fuel has
  exactly the results of the finished runs, and that no run finishes once the input has
  ended.
\<close>

section \<open>Steps and runs\<close>

inductive shell_step ::
  "os_view \<Rightarrow> world \<Rightarrow> char list \<Rightarrow> report \<Rightarrow> world \<Rightarrow> char list \<Rightarrow> bool" for os where
  pass: "length stack = BUFSZ \<Longrightarrow> iteration os junk stack stdin w = Again rep w' stdin' \<Longrightarrow>
     shell_step os w stdin rep w' stdin'"

inductive shell_end ::
  "os_view \<Rightarrow> world \<Rightarrow> char list \<Rightarrow> shell_error + world \<times> report list \<Rightarrow> bool" for os where
  leave: "length stack = BUFSZ \<Longrightarrow> iteration os junk stack stdin w = Stop r \<Longrightarrow>
     shell_end os w stdin r"

inductive run ::
  "os_view \<Rightarrow> world \<Rightarrow> char list \<Rightarrow> report list \<Rightarrow> world \<Rightarrow> char list \<Rightarrow> bool" for os where
  run_Nil: "run os w stdin [] w stdin"
| run_Cons: "shell_step os w stdin rep w1 stdin1 \<Longrightarrow> run os w1 stdin1 reps w' stdin' \<Longrightarrow>
     run os w stdin (rep # reps) w' stdin'"

inductive finishes ::
  "os_view \<Rightarrow> world \<Rightarrow> char list \<Rightarrow> shell_error + world \<times> report list \<Rightarrow> bool" for os where
  finish: "run os w stdin reps w1 stdin1 \<Longrightarrow> shell_end os w1 stdin1 r \<Longrightarrow>
     finishes os w stdin (foldr add_report reps r)"

inductive_cases run_NilE [elim!]: "run os w stdin [] w' stdin'"

inductive_cases run_ConsE [elim!]: "run os w stdin (rep # reps) w' stdin'"

lemma foldr_add_report_Inl [simp]: "foldr add_report reps (Inl e) = Inl e"
  by (induction reps) (simp_all add: add_report_def)

lemma run_append:
  "run os w stdin reps w1 stdin1 \<Longrightarrow> run os w1 stdin1 reps' w2 stdin2 \<Longrightarrow>
     run os w stdin (reps @ reps') w2 stdin2"
  by (induction rule: run.induct) (auto intro: run.intros)

lemma finishes_step:
  assumes "shell_step os w stdin rep w1 stdin1" and "finishes os w1 stdin1 r"
  shows "finishes os w stdin (add_report rep r)"
  using assms(2)
proof cases
  case (finish reps w2 stdin2 r1)
  from finishes.finish [OF run_Cons [OF assms(1) finish(2)] finish(3)] finish(1) show ?thesis
    by simp
qed

section \<open>What every run keeps\<close>

lemma shell_step_keeps:
  assumes "shell_step os w stdin rep w' stdin'" and "world_ok w"
  shows "world_ok w' \<and> later w w' 1 \<and> suffix stdin' stdin \<and> raw_mode (ed w') = raw_mode (ed w)"
  using assms by (auto elim!: shell_step.cases dest: iteration_Again_keeps)

lemma run_keeps:
  assumes "run os w stdin reps w' stdin'" and "world_ok w"
  shows "world_ok w' \<and> later w w' (length reps) \<and> suffix stdin' stdin \<and>
    raw_mode (ed w') = raw_mode (ed w)"
  using assms
proof (induction rule: run.induct)
  case (run_Cons w stdin rep w1 stdin1 reps w' stdin')
  from shell_step_keeps [OF run_Cons.hyps(1) run_Cons.prems]
  have 1: "world_ok w1" "later w w1 1" "suffix stdin1 stdin" "raw_mode (ed w1) = raw_mode (ed w)"
    by simp_all
  from run_Cons.IH [OF 1(1)] later_trans [OF 1(2), of w' "length reps"] 1(3,4) show ?case
    by (auto intro: suffix_order.trans)
qed simp

section \<open>The loop on fuel and the runs\<close>

lemma main_loop_finishes:
  assumes "\<forall>i. length (stack i) = BUFSZ" and "main_loop fuel os junk stack i stdin w = Some r"
  shows "finishes os w stdin r"
  using assms(2)
proof (induction fuel arbitrary: i stdin w r)
  case (Suc fuel)
  from assms(1) have len: "length (stack i) = BUFSZ"
    by simp
  show ?case
  proof (cases "iteration os (junk i) (stack i) stdin w")
    case (Stop x)
    with Suc.prems have "iteration os (junk i) (stack i) stdin w = Stop r"
      by (simp add: main_loop.simps(2))
    from finishes.finish [OF run_Nil leave [OF len this]] show ?thesis
      by simp
  next
    case (Again rep w1 stdin1)
    with Suc.prems obtain r1 where
      m: "main_loop fuel os junk stack (Suc i) stdin1 w1 = Some r1" and r: "r = add_report rep r1"
      by (auto simp: main_loop.simps(2) [of fuel])
    from finishes_step [OF pass [OF len Again] Suc.IH [OF m]] r show ?thesis
      by simp
  qed
qed simp

lemma main_loop_cong:
  assumes "\<forall>k \<ge> i. junk k = junk' k \<and> stack k = stack' k"
  shows "main_loop fuel os junk stack i stdin w = main_loop fuel os junk' stack' i stdin w"
  using assms
proof (induction fuel arbitrary: i stdin w)
  case (Suc fuel)
  from Suc.prems have "junk i = junk' i" "stack i = stack' i"
    and "\<forall>k \<ge> Suc i. junk k = junk' k \<and> stack k = stack' k"
    by simp_all
  with Suc.IH [of "Suc i"] show ?case
    by (simp add: main_loop.simps(2) split: iteration_end.splits)
qed simp

lemma run_main_loop:
  assumes "run os w stdin reps w1 stdin1" and "shell_end os w1 stdin1 r"
  shows "\<exists>junk stack. (\<forall>k. length (stack k) = BUFSZ) \<and>
    main_loop (Suc (length reps)) os junk stack i stdin w = Some (foldr add_report reps r)"
  using assms
proof (induction arbitrary: i rule: run.induct)
  case (run_Nil w stdin)
  from run_Nil obtain stack0 junk0 where "length stack0 = BUFSZ"
    and "iteration os junk0 stack0 stdin w = Stop r"
    by (auto elim: shell_end.cases)
  thus ?case
    by (intro exI [of _ "\<lambda>k. junk0"] exI [of _ "\<lambda>k. stack0"]) (simp add: main_loop.simps(2))
next
  case (run_Cons w stdin rep w1 stdin1 reps w' stdin')
  from run_Cons.hyps(1) obtain stack0 junk0 where 0: "length stack0 = BUFSZ"
    "iteration os junk0 stack0 stdin w = Again rep w1 stdin1"
    by (auto elim: shell_step.cases)
  from run_Cons.IH [OF run_Cons.prems, of "Suc i"] obtain junk stack
    where s: "\<forall>k. length (stack k) = BUFSZ"
      and m: "main_loop (Suc (length reps)) os junk stack (Suc i) stdin1 w1 =
        Some (foldr add_report reps r)"
    by blast
  define junk' stack' where "junk' = junk(i := junk0)" and "stack' = stack(i := stack0)"
  have "main_loop (Suc (length reps)) os junk' stack' (Suc i) stdin1 w1 =
      main_loop (Suc (length reps)) os junk stack (Suc i) stdin1 w1"
    by (rule main_loop_cong) (simp add: junk'_def stack'_def)
  moreover have "junk' i = junk0" "stack' i = stack0" "\<forall>k. length (stack' k) = BUFSZ"
    using s 0(1) by (simp_all add: junk'_def stack'_def)
  ultimately show ?case
    using m 0(2)
    by (intro exI [of _ junk'] exI [of _ stack']) (simp add: main_loop.simps(2) [of "Suc (length reps)"])
qed

section \<open>The end of the input\<close>

lemma eof_name_not_builtin:
  "replicate (BUFSZ - 1) (CHR 0xFF) \<notin> set ([[], ''exit'', ''cd''] @ builtin_names)"
proof
  assume a: "replicate (BUFSZ - 1) (CHR 0xFF) \<in> set ([[], ''exit'', ''cd''] @ builtin_names)"
  have "length n \<le> 11" if "n \<in> set ([[], ''exit'', ''cd''] @ builtin_names)" for n
    using that by (auto simp: builtin_names_def)
  from this [OF a] show False
    by (simp add: BUFSZ_def)
qed

lemma iteration_eof:
  assumes "length stack = BUFSZ" and "user os \<noteq> None" and "length (hostname os) < 1024"
    and "length (cwd (env w)) < 1024"
  shows "\<exists>rep w'. iteration os junk stack [] w = Again rep w' [] \<and> env w' = env w"
proof -
  let ?n = "replicate (BUFSZ - 1) (CHR 0xFF)"
  let ?c = "spec_command junk [?n] zero_command"
  from assms(2-4) obtain ps where ps: "show_prompt (user os) (hostname os) (cwd (env w)) = Some ps"
    by (auto simp: show_prompt_def)
  from prompt_eof_parsed [OF assms(1), of junk ps "ed w" zero_command]
  obtain r where r: "prompt junk stack ps [] (ed w) zero_command = Inr r" "code r = SUCCESS"
    "parsed r = Some ?c" "unread r = []"
    by blast
  have n: "name (command_t.fields ?c) = ?n"
    by (simp add: fields_spec_command)
  have "\<exists>k. free_command ?c = Inr k"
    by (simp add: spec_command.simps zero_command_def zero_fields_def)
  then obtain k where k: "free_command ?c = Inr k"
    by blast
  have p: "process_command os (command_t.fields ?c) [] (w\<lparr>ed := final r\<rparr>) =
      spawn os (command_t.fields ?c) [] (w\<lparr>ed := final r\<rparr>)"
    by (rule process_spawn) (simp only: n eof_name_not_builtin not_False_eq_True)
  obtain rc rep w' stdin' where
    s: "spawn os (command_t.fields ?c) [] (w\<lparr>ed := final r\<rparr>) = Inr (rc, rep, w', stdin')"
    by (cases "fork_ok os") (simp_all add: spawn_def)
  from spawn_frame [OF s] have "rc = SUCCESS" "stdin' = []" "env w' = env w"
    by simp_all
  with ps r k p s have "iteration os junk stack [] w = Again rep w' [] \<and> env w' = env w"
    by (simp add: iteration_def)
  thus ?thesis
    by blast
qed

lemma shell_step_eof:
  assumes "shell_step os w [] rep w' stdin'"
  shows "stdin' = [] \<and> env w' = env w"
proof -
  from assms obtain stack junk where s: "length stack = BUFSZ"
    and i: "iteration os junk stack [] w = Again rep w' stdin'"
    by (auto elim: shell_step.cases)
  from i have "user os \<noteq> None" "length (hostname os) < 1024" "length (cwd (env w)) < 1024"
    by (auto simp: iteration_def show_prompt_def split: option.splits if_splits)
  from iteration_eof [OF s this, of junk] i show ?thesis
    by auto
qed

lemma shell_end_eof:
  assumes "shell_end os w [] r"
  shows "r = Inl In_prompt_text \<and> show_prompt (user os) (hostname os) (cwd (env w)) = None"
proof -
  from assms obtain stack junk where s: "length stack = BUFSZ"
    and i: "iteration os junk stack [] w = Stop r"
    by (auto elim: shell_end.cases)
  show ?thesis
  proof (cases "show_prompt (user os) (hostname os) (cwd (env w))")
    case None
    with i show ?thesis
      by (simp add: iteration_def)
  next
    case (Some ps)
    hence "user os \<noteq> None" "length (hostname os) < 1024" "length (cwd (env w)) < 1024"
      by (auto simp: show_prompt_def split: option.splits if_splits)
    from iteration_eof [OF s this, of junk] i show ?thesis
      by auto
  qed
qed

lemma run_eof:
  assumes "run os w stdin reps w' stdin'" and "stdin = []"
  shows "stdin' = [] \<and> env w' = env w"
  using assms by (induction rule: run.induct) (auto dest: shell_step_eof)

end
