(* ===== verification/Spec2Isabelle.thy ===== *)
theory Spec2Isabelle
  imports Parser LineEditor CdHistory Cloc Exec Shell Run
begin

text \<open>
  \<^bold>\<open>A verification development for the mishell command shell.\<close>

  The repository holds an interactive shell, \<open>src/src/shell-skeleton.c\<close>, and a kernel
  module that prints the process tree below a given pid, \<open>src/module/mymodule.c\<close>.
  The shell runs one loop (\<open>main\<close>): it clears a \<open>struct command_t\<close>, reads a line
  in raw terminal mode (\<open>prompt\<close>), parses it into a chain of pipeline stages
  (\<open>parse_command\<close>), dispatches the chain (\<open>process_command\<close>: the builtins
  \<open>cd\<close>, \<open>cdh\<close>, \<open>roll\<close>, \<open>cloc\<close>, \<open>rename\<close>/\<open>mvsf\<close>, \<open>searchwords\<close>,
  \<open>psvis\<close>, or \<open>fork\<close> and \<open>execv\<close> after a search of \<open>PATH\<close>) and releases
  the chain (\<open>free_command\<close>). \<open>psvis\<close> loads the kernel module and turns what it
  writes to the kernel log into a graph description.

  \<^bold>\<open>Theories.\<close>

  \<^item> \<open>Prelude\<close>: the three values a pointer field can hold (\<open>Null\<close>, a valid \<open>Ptr\<close>,
    and \<open>Wild\<close> for a field of a \<open>malloc\<close> block that was never written), C strings
    as character lists cut at the first NUL (\<open>c_str\<close>), the cut \<open>fscanf\<close> and \<open>fgets\<close>
    make at their width (\<open>chunks\<close>), and the list lemmas the components share.
  \<^item> \<open>CString\<close>: the libc routines the shell calls, modelled from their contract:
    \<open>strchr\<close>, \<open>strcmp\<close>, \<open>strstr\<close> as predicates and \<open>strtok\<close> with its saved
    pointer made explicit; \<open>tokens\<close> is the list of tokens repeated calls return.
  \<^item> \<open>Numbers\<close>: \<open>isspace\<close>, \<open>isdigit\<close>, \<open>strtol\<close> with its end pointer, \<open>atoi\<close>,
    the conversion of \<open>long\<close> to \<open>int\<close>, and the text of \<open>%d\<close> (\<open>dec\<close>).
  \<^item> \<open>Command\<close>: \<open>enum return_codes\<close>, \<open>struct command_t\<close> (record
    \<open>command_fields\<close> inside the datatype \<open>command_t\<close> that adds the \<open>next\<close> link),
    the read of an entry of the argument vector (\<open>arg_at\<close>: a string, \<open>NULL\<close>, or a
    word past the vector) and \<open>free_command\<close>, which returns the number of blocks
    released or the memory error it runs into.
  \<^item> \<open>Parser\<close>: \<open>parse_command\<close> of the source, operation by operation
    (\<open>trim_left\<close>, \<open>trim_right\<close>, \<open>mark_flags\<close>, \<open>first_token\<close>, the argument loop
    \<open>parse_args\<close> with \<open>pipe_rest\<close>, \<open>redirect_of\<close>, \<open>set_redirect\<close>,
    \<open>strip_quotes\<close>, \<open>push_arg\<close>, and \<open>finish_args\<close>), on the raw buffer and with
    the state of \<open>strtok\<close>; beside it a specification on the list of tokens
    (\<open>spec_command\<close>, \<open>spec_error\<close>) and the proof that the code implements it.
  \<^item> \<open>LineEditor\<close>: \<open>prompt\<close> and \<open>prompt_backspace\<close>: one iteration of the
    loop (\<open>key_step\<close>) over the record \<open>editor\<close> (the 4096-byte buffer, the write
    position, the history slot \<open>oldbuf\<close>, the terminal mode, the echoed bytes), the loop
    over the input (\<open>prompt_loop\<close>), and \<open>prompt\<close> itself, which hands the line to
    the parser.
  \<^item> \<open>CdHistory\<close>: the \<open>cd\<close> and \<open>cdh\<close> branches of \<open>process_command\<close> over the
    record \<open>shell_env\<close> (working directory, \<open>HOME\<close>, the bytes of the history file).
  \<^item> \<open>Cloc\<close>: \<open>removeSpaces\<close>, \<open>lineCount\<close>, \<open>listFiles\<close> and the \<open>cloc\<close>
    branch, over a tree of directory entries.
  \<^item> \<open>Roll\<close>: the \<open>roll\<close> branch (\<open>builtin_roll\<close>, \<open>roll_args\<close>, \<open>roll_loop\<close>,
    \<open>roll_die\<close>) over the sequence of values \<open>rand\<close> returns.
  \<^item> \<open>Files\<close>: the \<open>rename\<close>/\<open>mvsf\<close> and \<open>searchwords\<close> branches over a map from
    path to content.
  \<^item> \<open>PsTree\<close>: the kernel module: \<open>pstree\<close> with the loop over the children
    (\<open>pstree_children\<close>) over a tree of tasks, \<open>simple_init\<close> over a lookup of the pid,
    and the text of the lines it logs.
  \<^item> \<open>Psvis\<close>: the \<open>psvis\<close> branch in its two steps (\<open>psvis_check\<close>: arguments and
    the test of the pid; \<open>psvis_draw\<close>: load, extraction of the new lines, graph file,
    \<open>dot\<close>) as a function to the commands given to \<open>system\<close> and the content of the
    graph file; with \<open>PsTree\<close>, what shell and module do together.
  \<^item> \<open>Exec\<close>: the dispatch on the name (\<open>dispatch_command\<close>) with the return code,
    the search of \<open>PATH\<close> (\<open>resolve_path\<close>, \<open>search_loop\<close>) and the child process
    (\<open>child\<close>, \<open>child_redirected\<close>, \<open>child_rest\<close>) as a function to the way it ends:
    the file, argument vector and redirection \<open>execv\<close> starts with, or \<open>exit\<close>. The
    value of \<open>PATH\<close>, the files \<open>access\<close> finds and the files \<open>execv\<close> can start
    are parameters.
  \<^item> \<open>Shell\<close>: \<open>print_command\<close>, \<open>show_prompt\<close>, \<open>process_command\<close> as one
    function (the dispatch of \<open>Exec\<close> composed with every branch) on the record
    \<open>world\<close> (editor, directory state, files, position in the sequence of \<open>rand\<close>,
    programs left running in the background) under the record \<open>os_view\<close> (what the
    shell only reads of the system), the launcher \<open>spawn\<close> around the child of \<open>Exec\<close>
    (\<open>fork\<close> and its failure, the file an output redirection creates, the program a
    second \<open>fork\<close> detaches and the shell never reaps, \<open>wait\<close>), one pass of the
    loop of \<open>main\<close>
    (\<open>iteration\<close>) and the loop itself (\<open>main_loop\<close>).
  \<^item> \<open>Run\<close>: the same loop as a transition system: the inductive relations
    \<open>shell_step\<close> (a pass of the loop that goes round), \<open>shell_end\<close> (a pass that leaves
    it), \<open>run\<close> and \<open>finishes\<close>, without fuel and for every content of the
    uninitialised memory.
  \<^item> This theory: what holds across components: from the parsed line to
    \<open>free_command\<close> and to the builtins, and the main loop from the keys typed to its
    end.

  \<^bold>\<open>Conventions.\<close> Undefined behaviour of the C code is a value of the model, never a
  gap of it: a function that can write past an array, read past a terminator, divide by
  zero or follow a pointer that was never set returns \<open>Inl\<close> of an error that names the
  cause, and the theorems say when that happens and when it cannot. The junk a
  \<open>malloc\<close> block holds is a parameter (\<open>junk\<close>) of the parser, one struct for each
  nested stage, so that results hold for every content of uninitialised memory; so is the
  stack array of the line editor. Undefined behaviour in a child process is part of what
  \<open>process_command\<close> reports, since the shell itself goes on. All definitions are
  executable, and the stated instances are evaluated by the simplifier.

  \<^bold>\<open>Termination and fuel.\<close> Every recursive definition but one is a total function
  with a termination proof; the loop of the line editor ends on every input because
  \<open>getchar\<close> at the end of the input keeps returning a byte that fills the buffer. The
  loop of \<open>main\<close> need not end, so \<open>main_loop\<close> runs on fuel, one unit for each
  iteration, and returns \<open>None\<close> when the fuel is used up. Two theorems say how much
  fuel is enough and when none is: as many units as lines are typed when the last line is
  \<open>exit\<close>, and no number of units at the end of the input; more fuel never changes a
  result (\<open>main_loop_more_fuel\<close>).

  \<^bold>\<open>Bounds.\<close> The sizes are those of the source: the 4096 bytes of the line buffer
  and of the history slot, the 1024-byte \<open>temp_buf\<close> of the parser, three
  redirection slots, ten history slots of 256 bytes, 256 bytes for the history path and
  the working directory, 512 and 1024 bytes for the paths of \<open>cloc\<close>, 1024 bytes for
  the copy of \<open>PATH\<close> and for the two path arrays of the launcher, ten bytes for the
  argument of \<open>roll\<close>, 256 and 512 bytes for the strings of \<open>rename\<close> and
  \<open>searchwords\<close>, 1023 characters for a word or a line read in one piece, 512 bytes for
  a command of \<open>psvis\<close>. Values of type \<open>int\<close> and \<open>long\<close> are integers with the
  range written out (\<open>INT_MAX\<close>, \<open>LONG_MAX\<close>, \<open>to_int\<close>); the counters of \<open>cloc\<close>
  are natural numbers (the \<open>int\<close> of the code does not overflow below \<open>2^31\<close> lines).

  \<^bold>\<open>What the lemmas show.\<close>
  \<^item> \<open>Parser\<close>: the refinement of the token-level specification by the code; from it the name, the
    argument vector, the flags and the redirections of the first stage, the names of all
    stages, well-formedness of every stage, the exact condition of success, and the
    three ways the parser leaves defined behaviour (a pipe token at the end of the line,
    a token of 1024 characters or more, the indeterminate fields of nested stages).
  \<^item> \<open>Command\<close>: \<open>free_command\<close> is safe exactly on initialised chains and releases
    every block of one.
  \<^item> \<open>LineEditor\<close>: the loop implements the line a user means to type
    (\<open>edit_keys\<close>) for ordinary keys, backspaces and discarded bytes; what \<open>prompt\<close>
    returns on Enter, on Tab, after the up arrow, on Ctrl-D (the terminal stays in raw
    mode) and at the end of the input; the write past the buffer that the history
    recall makes possible; the invariant every call keeps (the history slot holds a
    string that fits the buffer, so the copy on the up arrow does not overflow), that
    every call reads a prefix of the input, and that the bytes echoed to a terminal
    (a line with a cursor, \<open>render\<close>) show the prompt string and the edited line.
  \<^item> \<open>CdHistory\<close>: round trip of the history file, the invariant (at most ten
    distinct entries, most recent last) under \<open>cd\<close>, under any sequence of calls of
    \<open>cd\<close> (\<open>cd_all\<close>) and under \<open>cdh\<close>, eviction of the
    oldest entry, the menu of \<open>cdh\<close> against the index it computes, and the inputs on
    which \<open>cdh\<close> indexes outside the entries it read.
  \<^item> \<open>Cloc\<close>: the in-place loop of \<open>removeSpaces\<close> is the filter; every line is
    counted once in the row of the extension; the comment flag is tracked for C and
    never for Python; the file counters add up to the number of processed files; the
    walk over the tree counts what the specification \<open>tally\<close> counts, whenever the
    names and paths fit their arrays.
  \<^item> \<open>Numbers\<close>: \<open>strtol\<close> and \<open>atoi\<close> read back what \<open>%d\<close> printed; a string of
    \<open>k\<close> characters denotes a number below \<open>10 ^ k\<close>.
  \<^item> \<open>Roll\<close>: what a roll returns; its sum never overflows; the arguments that divide
    by zero.
  \<^item> \<open>Files\<close>: what \<open>searchwords\<close> counts; what \<open>rename\<close> does to the files; that
    too few arguments never reach the usage message.
  \<^item> \<open>PsTree\<close>, \<open>Psvis\<close>: the log of the module holds every edge of the tree once,
    parents first; the graph file holds the module's lines; a line without a quote and
    a pid that is not a number lead out of defined behaviour.
  \<^item> \<open>Exec\<close>: the first directory of \<open>PATH\<close> that holds the name wins; what a
    command that is found starts, in the first child or in a second one; that a name
    that is not found makes the child use an array it never wrote; the return code is
    \<open>EXIT\<close> for the name \<open>exit\<close> and \<open>SUCCESS\<close> otherwise.
  \<^item> \<open>Shell\<close> and this theory: one call of \<open>process_command\<close> changes only what its
    branch owns; the whole effect of a command that is found, files and background
    programs included; what every run of the loop keeps and how its state grows; the
    loop on fuel returns exactly the results of the finished runs of the transition
    system; the
    loop ends on a line \<open>exit\<close> and never at the end of the input; a parsed line is
    released completely, and a line with a pipe stops the shell in \<open>free_command\<close>.

  \<^bold>\<open>Not modelled.\<close> What a started program does after \<open>execv\<close>, the exit status
  \<open>wait\<close> discards, the numbers of the descriptors and a redirection target that
  cannot be opened (the code tests no result of \<open>open\<close>, \<open>creat\<close> or \<open>dup2\<close>; the
  files are a map from path to content, without directories or permissions); what the
  programs \<open>psvis\<close> starts do (\<open>sudo\<close>, \<open>dmesg\<close>, \<open>wc\<close>,
  \<open>insmod\<close>, \<open>rmmod\<close>, \<open>dot\<close>: their results are parameters, \<open>sed\<close> with its one
  address range is \<open>sed_delete\<close>); directories and permissions in \<open>rename(2)\<close>; in the
  kernel module, the locking of the task list, the depth of the kernel stack and the
  registration macros. Of the builtins, the messages on a failed \<open>chdir\<close> are not part
  of the state; what the others print is a value (\<open>roll_out\<close>, \<open>search_out\<close>,
  \<open>rename_out\<close>, \<open>psvis_out\<close>, the menu of \<open>cdh\<close>, the numbers of the \<open>cloc\<close>
  report) with its text beside it.
\<close>

section \<open>From the parser to free_command\<close>

lemma free_args_wf:
  assumes "wf_args f"
  shows "free_args f = arg_count f"
proof -
  from assms have ne: "args f \<noteq> []"
    by (auto simp: wf_args_def)
  with assms have a: "args f = butlast (args f) @ [None]"
    by (metis append_butlast_last_id wf_args_def)
  from assms have "None \<notin> set (butlast (args f))"
    by (simp add: wf_args_def)
  then have "\<forall>x \<in> set (butlast (args f)). x \<noteq> None"
    by metis
  then have "filter (\<lambda>a. a \<noteq> None) (butlast (args f) @ [None]) = butlast (args f)"
    by (simp add: filter_id_conv del: not_None_eq)
  with a have "length (filter (\<lambda>a. a \<noteq> None) (args f)) = length (args f) - 1"
    by (metis length_butlast)
  with assms ne show ?thesis
    by (cases "args f") (auto simp: free_args_def wf_args_def)
qed

lemma token_step_no_wild:
  "Wild \<notin> set (redirects f) \<Longrightarrow> Wild \<notin> set (redirects (token_step t f))"
  by (cases t rule: token_step_cases)
    (auto simp: set_redirect_def push_arg_def dest!: set_update_subset_insert [THEN subsetD])

lemma fold_token_step_no_wild:
  "Wild \<notin> set (redirects f) \<Longrightarrow> Wild \<notin> set (redirects (fold token_step ts f))"
  by (induction ts arbitrary: f) (simp_all add: token_step_no_wild)

lemma spec_command_no_pipe:
  assumes "''|'' \<notin> set (tl toks)"
  shows "spec_command junk toks zero_command =
    Command (finish_args (fold token_step (tl toks) (stage_init toks zero_fields))) Null"
  using assms by (simp add: spec_command.simps spec_args_no_pipe zero_command_def comp_def)

lemma free_command_unterminated:
  "\<not> chain_terminated c \<Longrightarrow> \<exists>e. free_command c = Inl e"
  using free_command_Inr_initialised [of c] by (cases "free_command c") auto

lemma free_command_parsed:
  assumes "parse_command junk line zero_command = Inr c"
    and "''|'' \<notin> set (tl (line_tokens (c_str line)))"
  shows "free_command c =
    Inr (arg_count (command_t.fields c) + length (filter (\<lambda>p. p \<noteq> Null) (redirects (command_t.fields c))) + 2)"
proof -
  let ?f = "finish_args (fold token_step (tl (line_tokens (c_str line)))
    (stage_init (line_tokens (c_str line)) zero_fields))"
  from parse_command_InrD(1) [OF assms(1)] assms(2) have c: "c = Command ?f Null"
    by (simp add: spec_command_no_pipe)
  have "wf_args ?f"
    by (simp add: wf_args_finish_args fold_token_step_args plain_args_Some)
  then have a: "free_args ?f = arg_count ?f"
    by (rule free_args_wf)
  have "Wild \<notin> set (redirects ?f)"
    by (simp add: fold_token_step_no_wild zero_fields_def)
  then have "count_ptrs (redirects ?f) = Inr (length (filter (\<lambda>p. p \<noteq> Null) (redirects ?f)))"
    by (rule count_ptrs_value)
  with a show ?thesis
    unfolding c by simp
qed

text \<open>
  C37. A line without a pipe is released completely and safely: parsed into the cleared
  struct of the main loop, its chain is one stage, and \<open>free_command\<close> releases one
  block for every entry of the argument vector but the NULL (the vector itself taking
  the place of the NULL), one for every redirection that was given, one for the name and
  one for the struct, whatever the uninitialised memory holds.
\<close>

theorem free_parsed_command:
  assumes "parse_command junk line zero_command = Inr c"
    and "''|'' \<notin> set (tl (line_tokens (c_str line)))"
  shows "free_command c =
    Inr (arg_count (command_t.fields c) + length (filter (\<lambda>p. p \<noteq> Null) (redirects (command_t.fields c))) + 2)"
  using assms by (rule free_command_parsed)

theorem free_parsed_command_witness:
  "(\<exists>c. parse_command (\<lambda>_. Command zero_fields Wild) ''sort -n <in >out'' zero_command = Inr c \<and>
     ''|'' \<notin> set (tl (line_tokens (c_str ''sort -n <in >out''))) \<and> free_command c = Inr 7)"
proof -
  define c where "c = Command \<lparr>name = ''sort'', background = False, auto_complete = False,
    arg_count = 3, args = [Some ''sort'', Some ''-n'', None],
    redirects = [Ptr ''in'', Ptr ''out'', Null]\<rparr> Null"
  have p: "parse_command (\<lambda>_. Command zero_fields Wild) ''sort -n <in >out'' zero_command = Inr c"
    unfolding c_def by code_simp
  have n: "''|'' \<notin> set (tl (line_tokens (c_str ''sort -n <in >out'')))"
    by code_simp
  from free_parsed_command [OF p n] p n show ?thesis
    by (auto simp: c_def)
qed

text \<open>
  A pipeline cannot be released safely: when the structs of the nested stages come
  from \<open>malloc\<close> with an indeterminate \<open>next\<close> field, \<open>free_command\<close> on the
  chain parsed from any line with a pipe reaches a pointer that was never written, and
  frees it or follows it.
\<close>

theorem free_parsed_pipeline:
  assumes "parse_command junk line zero_command = Inr c"
    and "\<forall>n. next_command (junk n) = Wild"
    and "''|'' \<in> set (tl (line_tokens (c_str line)))"
  shows "\<exists>e. free_command c = Inl e"
proof -
  from assms(2,3) have "\<not> chain_terminated (spec_command junk (line_tokens (c_str line)) zero_command)"
    by (simp add: spec_chain_terminated)
  then show ?thesis
    unfolding parse_command_InrD(1) [OF assms(1)] by (rule free_command_unterminated)
qed

theorem free_parsed_pipeline_witness:
  "next_command (Command zero_fields Wild) = Wild \<and>
   (\<exists>c. parse_command (\<lambda>_. Command zero_fields Wild) ''ls | wc'' zero_command = Inr c \<and>
     free_command c = Inl WildDeref)"
proof -
  define c where "c = Command (finish_args (zero_fields\<lparr>name := ''ls''\<rparr>))
    (Ptr (Command (finish_args (zero_fields\<lparr>name := ''wc''\<rparr>)) Wild))"
  have p: "parse_command (\<lambda>_. Command zero_fields Wild) ''ls | wc'' zero_command = Inr c"
    unfolding c_def by code_simp
  have n: "''|'' \<in> set (tl (line_tokens (c_str ''ls | wc'')))"
    by code_simp
  have f: "free_command c = Inl WildDeref"
    unfolding c_def by (simp add: zero_fields_def finish_args_def)
  from free_parsed_pipeline [OF p _ n] p f show ?thesis
    by auto
qed

section \<open>From the parser to the builtins\<close>

lemma parsed_head_args:
  assumes "parse_command junk line command = Inr c"
  shows "args (command_t.fields c) =
      Some (name (command_t.fields c)) # plain_args (own_tokens (line_tokens (c_str line))) @ [None]"
    and "arg_count (command_t.fields c) = length (plain_args (own_tokens (line_tokens (c_str line)))) + 2"
  unfolding parse_command_InrD(1) [OF assms]
  by (simp_all add: fields_spec_command fold_token_step_args)

text \<open>
  The guard of the \<open>cd\<close> branch, \<open>arg_count > 0\<close>, holds for every parsed
  command, so the branch never falls through to the process launcher; and \<open>cd\<close>
  without an argument passes the NULL entry of the argument vector to \<open>chdir\<close>, fails
  to change the directory, and records the unchanged working directory in the history.
\<close>

theorem cd_after_parse:
  assumes "parse_command junk line command = Inr c"
  shows "builtin_cd resolve (command_t.fields c) sh \<noteq> None \<and>
    (plain_args (own_tokens (line_tokens (c_str line))) = [] \<longrightarrow>
       builtin_cd resolve (command_t.fields c) sh = builtin_cd (\<lambda>d p. None) (command_t.fields c) sh)"
proof -
  note h = parsed_head_args [OF assms]
  have "args (command_t.fields c) ! 1 = None" if "plain_args (own_tokens (line_tokens (c_str line))) = []"
    using that h(1) by simp
  then show ?thesis
    using h(2) by (auto simp: builtin_cd_def do_chdir_def)
qed

theorem cd_after_parse_witness:
  "(\<exists>c. parse_command (\<lambda>_. zero_command) ''cd'' zero_command = Inr c \<and>
     plain_args (own_tokens (line_tokens (c_str ''cd''))) = [] \<and>
     builtin_cd (\<lambda>d p. Some p) (command_t.fields c)
       \<lparr>cwd = ''/tmp'', home = Some ''/home/u'', history_file = None, history_writable = True\<rparr> =
     Some (Inr \<lparr>cwd = ''/tmp'', home = Some ''/home/u'',
       history_file = Some (''/tmp'' @ [newline]), history_writable = True\<rparr>))"
proof -
  let ?env = "\<lparr>cwd = ''/tmp'', home = Some ''/home/u'', history_file = None,
    history_writable = True\<rparr>"
  define c where "c = Command (finish_args (zero_fields\<lparr>name := ''cd''\<rparr>)) Null"
  have p: "parse_command (\<lambda>_. zero_command) ''cd'' zero_command = Inr c"
    unfolding c_def by code_simp
  have n: "plain_args (own_tokens (line_tokens (c_str ''cd''))) = []"
    by code_simp
  have "builtin_cd (\<lambda>d p. None) (command_t.fields c) ?env =
      Some (Inr (?env\<lparr>history_file := Some (''/tmp'' @ [newline])\<rparr>))"
    by (simp add: c_def builtin_cd_def finish_args_def zero_fields_def do_chdir_def
        history_path_def write_history_def evict_def dedup_append_def)
  with cd_after_parse [OF p, of "\<lambda>d p. Some p" ?env] p n show ?thesis
    by simp
qed

text \<open>
  \<open>cloc\<close> does not check that it was given a directory: for a parsed command
  with no argument the branch formats the NULL entry of the argument vector with
  \<open>%s\<close>.
\<close>

theorem cloc_without_argument:
  assumes "parse_command junk line command = Inr c"
    and "plain_args (own_tokens (line_tokens (c_str line))) = []"
  shows "builtin_cloc path fs (command_t.fields c) = Inl NullArgument"
  using parsed_head_args(1) [OF assms(1)] assms(2) by (simp add: builtin_cloc_def)

theorem cloc_without_argument_witness:
  "(\<exists>c. parse_command (\<lambda>_. zero_command) ''cloc >out'' zero_command = Inr c \<and>
     plain_args (own_tokens (line_tokens (c_str ''cloc >out''))) = [] \<and>
     builtin_cloc ''/w'' (\<lambda>p. None) (command_t.fields c) = Inl NullArgument)"
proof -
  define c where "c = Command (finish_args (zero_fields\<lparr>name := ''cloc'',
    redirects := [Null, Ptr ''out'', Null]\<rparr>)) Null"
  have p: "parse_command (\<lambda>_. zero_command) ''cloc >out'' zero_command = Inr c"
    unfolding c_def by code_simp
  have n: "plain_args (own_tokens (line_tokens (c_str ''cloc >out''))) = []"
    by code_simp
  from cloc_without_argument [OF p n, of "''/w''" "\<lambda>p. None"] p n show ?thesis
    by simp
qed

section \<open>The main loop\<close>

definition line_name :: "char list \<Rightarrow> cstring" where
  "line_name keys = (case line_tokens (c_str (edit_keys keys [])) of [] \<Rightarrow> [] | n # _ \<Rightarrow> n)"

definition typed :: "char list list \<Rightarrow> char list" where
  "typed ls = concat (map (\<lambda>l. l @ [newline]) ls)"

definition typable :: "char list \<Rightarrow> bool" where
  "typable keys \<longleftrightarrow> list_all simple_key keys \<and> length keys < BUFSZ - 1"

lemma parsed_name:
  "parse_command junk (edit_keys keys []) command = Inr c \<Longrightarrow>
     name (command_t.fields c) = line_name keys"
  by (drule parse_command_InrD(1)) (simp add: fields_spec_command line_name_def)

lemma iteration_typed:
  assumes "typable keys" and "length stack = BUFSZ"
  shows "(\<exists>r. iteration os junk stack (keys @ newline # rest) w = Stop r) \<or>
    (\<exists>rep w' stdin'. iteration os junk stack (keys @ newline # rest) w = Again rep w' stdin' \<and>
       (line_name keys \<noteq> ''cdh'' \<longrightarrow> stdin' = rest) \<and> line_name keys \<noteq> ''exit'')"
proof (cases "show_prompt (user os) (hostname os) (cwd (env w))")
  case None
  thus ?thesis
    by (simp add: iteration_def)
next
  case (Some ps)
  from assms have k: "\<forall>k \<in> set keys. simple_key k" "length keys < BUFSZ - 1"
    by (simp_all add: typable_def list_all_iff)
  from prompt_line_cases [OF k assms(2), of "ed w" junk ps rest zero_command]
  obtain e' where p: "prompt junk stack ps (keys @ newline # rest) (ed w) zero_command =
      (case parse_command junk (edit_keys keys []) zero_command of
         Inl err \<Rightarrow> Inl (Parse err)
       | Inr c \<Rightarrow> Inr \<lparr>code = SUCCESS, parsed = Some c, final = e', unread = rest\<rparr>)"
    by blast
  show ?thesis
  proof (cases "parse_command junk (edit_keys keys []) zero_command")
    case (Inl err)
    with Some p show ?thesis
      by (simp add: iteration_def)
  next
    case (Inr c)
    note n = parsed_name [OF Inr]
    show ?thesis
    proof (cases "process_command os (command_t.fields c) rest (w\<lparr>ed := e'\<rparr>)")
      case (Inl e)
      with Some p Inr show ?thesis
        by (simp add: iteration_def)
    next
      case pr: (Inr x)
      obtain rc rep w' stdin' where x: "x = (rc, rep, w', stdin')"
        by (cases x)
      from process_frame [OF pr [unfolded x]] n
      have f: "line_name keys \<noteq> ''cdh'' \<longrightarrow> stdin' = rest" "rc = EXIT \<longleftrightarrow> line_name keys = ''exit''"
        by simp_all
      from Some p Inr pr x f show ?thesis
        by (cases "free_command c") (auto simp: iteration_def)
    qed
  qed
qed

lemma typed_Cons: "typed (l # ls) @ rest = l @ newline # typed ls @ rest"
  by (simp add: typed_def)

text \<open>
  C15. The shell ends on every input that holds a line \<open>exit\<close>: for lines that are typed
  with ordinary keys, backspaces and discarded bytes, none of them a call of \<open>cdh\<close>
  (which reads its answer from the same input), the last of them with the name
  \<open>exit\<close>, the main loop returns, with a result or stopped by an error, within as many
  iterations as there are lines, whatever follows on the input, whatever the system
  answers and whatever the uninitialised memory holds.
\<close>

theorem main_terminates:
  assumes "\<forall>i. length (stack i) = BUFSZ" and "list_all typable ls"
    and "list_all (\<lambda>l. line_name l \<noteq> ''cdh'') ls"
    and "ls \<noteq> []" and "line_name (last ls) = ''exit''"
  shows "\<exists>r. main_loop (length ls) os junk stack i (typed ls @ rest) w = Some r"
  using assms(2-5)
proof (induction ls arbitrary: i w)
  case (Cons l ls)
  from Cons.prems(1) assms(1) have t: "typable l" "length (stack i) = BUFSZ"
    by simp_all
  from iteration_typed [OF t, of os "junk i" "typed ls @ rest" w]
  consider r where "iteration os (junk i) (stack i) (typed (l # ls) @ rest) w = Stop r"
    | rep w' stdin' where
      "iteration os (junk i) (stack i) (typed (l # ls) @ rest) w = Again rep w' stdin'"
      "line_name l \<noteq> ''cdh'' \<longrightarrow> stdin' = typed ls @ rest" "line_name l \<noteq> ''exit''"
    unfolding typed_Cons by blast
  thus ?case
  proof cases
    case 1
    thus ?thesis
      by (simp add: main_loop.simps(2))
  next
    case 2
    from 2(3) Cons.prems(4) have ne: "ls \<noteq> []"
      by auto
    with Cons.prems have "list_all typable ls" "list_all (\<lambda>l. line_name l \<noteq> ''cdh'') ls"
      "line_name (last ls) = ''exit''"
      by simp_all
    from Cons.IH [OF this(1,2) ne this(3), of "Suc i" w']
    obtain r where "main_loop (length ls) os junk stack (Suc i) (typed ls @ rest) w' = Some r"
      by blast
    with 2(1,2) Cons.prems(2) show ?thesis
      by (simp add: main_loop.simps(2))
  qed
qed simp

definition quiet_os :: os_view where
  "quiet_os = \<lparr>chdir_to = (\<lambda>d p. None), dirs = (\<lambda>p. None), search_path = Some ''/bin'',
     found = (\<lambda>p. False), runs = (\<lambda>p. False), rand_seq = (\<lambda>j. 0),
     kernel = \<lparr>log_before = [], log_added = (\<lambda>p. []), process_found = (\<lambda>p. False),
       errno_was_esrch = False, dot_works = False\<rparr>,
     user = Some ''u'', hostname = ''h'', fork_ok = True\<rparr>"

definition start_world :: world where
  "start_world = \<lparr>ed = \<lparr>buf = [], index = 0, oldbuf = [], raw_mode = False, screen = []\<rparr>,
     env = \<lparr>cwd = ''/tmp'', home = Some ''/home/u'', history_file = None, history_writable = True\<rparr>,
     disk = Map.empty, rand_calls = 0, jobs = []\<rparr>"

lemma typable_exit: "typable ''exit''" "line_name ''exit'' = ''exit''"
proof -
  show "typable ''exit''"
    by (simp add: typable_def simple_key_def plain_key_def is_ignored_def BUFSZ_def)
  have "edit_keys ''exit'' [] = ''exit''"
    by (simp add: edit_keys_def edit_key_def is_ignored_def)
  moreover have "line_tokens ''exit'' = [''exit'']"
    by code_simp
  ultimately show "line_name ''exit'' = ''exit''"
    by (simp add: line_name_def)
qed

theorem main_terminates_witness:
  "\<exists>r. main_loop 1 quiet_os (\<lambda>i n. zero_command) (\<lambda>i. replicate 4096 (CHR ''x'')) 0
     (''exit'' @ [newline] @ ''ls'') start_world = Some r"
proof -
  have h: "\<forall>i :: nat. length (replicate 4096 (CHR ''x'')) = BUFSZ" "list_all typable [''exit'']"
    "list_all (\<lambda>l. line_name l \<noteq> ''cdh'') [''exit'']" "[''exit''] \<noteq> []"
    "line_name (last [''exit'']) = ''exit''"
    by (simp_all add: typable_exit BUFSZ_def)
  from main_terminates [of "\<lambda>i. replicate 4096 (CHR ''x'')" "[''exit'']", OF h,
      of quiet_os "\<lambda>i n. zero_command" 0 "''ls''" start_world]
  show ?thesis
    by (simp add: typed_def)
qed

lemma main_loop_exit:
  assumes "show_prompt (user os) (hostname os) (cwd (env w)) \<noteq> None"
    and "typable keys" and "length (stack i) = BUFSZ"
    and "parse_command (junk i) (edit_keys keys []) zero_command = Inr c"
    and "line_name keys = ''exit''"
  shows "\<exists>e'. main_loop (Suc fuel) os junk stack i (keys @ newline # rest) w =
      Some (Inr (w\<lparr>ed := e'\<rparr>, [Exit_typed])) \<and>
    oldbuf e' = c_str (edit_keys keys []) \<and> raw_mode e' = raw_mode (ed w)"
proof -
  from assms(1) obtain ps where ps: "show_prompt (user os) (hostname os) (cwd (env w)) = Some ps"
    by blast
  from assms(2) have k: "\<forall>k \<in> set keys. simple_key k" "length keys < BUFSZ - 1"
    by (simp_all add: typable_def list_all_iff)
  from prompt_line_cases [OF k assms(3), of "ed w" "junk i" ps rest zero_command] assms(4)
  obtain e' where e': "oldbuf e' = c_str (edit_keys keys [])" "raw_mode e' = raw_mode (ed w)"
    and p: "prompt (junk i) (stack i) ps (keys @ newline # rest) (ed w) zero_command =
      Inr \<lparr>code = SUCCESS, parsed = Some c, final = e', unread = rest\<rparr>"
    by auto
  from parsed_name [OF assms(4)] assms(5) have "name (command_t.fields c) = ''exit''"
    by simp
  hence "iteration os (junk i) (stack i) (keys @ newline # rest) w =
      Stop (Inr (w\<lparr>ed := e'\<rparr>, [Exit_typed]))"
    by (simp add: iteration_def ps p process_exit)
  with e' show ?thesis
    by (auto simp: main_loop.simps(2))
qed

text \<open>
  A line \<open>exit\<close> ends the shell in that iteration: the loop returns the state it had,
  with the line in the history slot of the editor and the terminal mode restored, reports
  that \<open>exit\<close> was typed, and leaves the rest of the input unread; the command is not
  passed to \<open>free_command\<close>.
\<close>

theorem main_exits:
  assumes "show_prompt (user os) (hostname os) (cwd (env w)) \<noteq> None"
    and "typable keys" and "length (stack i) = BUFSZ"
    and "parse_command (junk i) (edit_keys keys []) zero_command = Inr c"
    and "line_name keys = ''exit''"
  shows "\<exists>e'. main_loop (Suc fuel) os junk stack i (keys @ newline # rest) w =
      Some (Inr (w\<lparr>ed := e'\<rparr>, [Exit_typed])) \<and>
    oldbuf e' = c_str (edit_keys keys []) \<and> raw_mode e' = raw_mode (ed w)"
  using assms by (rule main_loop_exit)

theorem main_exits_witness:
  "\<exists>e'. main_loop 1 quiet_os (\<lambda>i n. zero_command) (\<lambda>i. replicate 4096 (CHR ''x'')) 0
     (''exit'' @ [newline] @ ''ls'') start_world =
       Some (Inr (start_world\<lparr>ed := e'\<rparr>, [Exit_typed])) \<and>
     oldbuf e' = ''exit'' \<and> \<not> raw_mode e'"
proof -
  have e: "edit_keys ''exit'' [] = ''exit''"
    by (simp add: edit_keys_def edit_key_def is_ignored_def)
  have "line_tokens ''exit'' = [''exit'']"
    by code_simp
  hence p: "parse_command (\<lambda>n. zero_command) (edit_keys ''exit'' []) zero_command =
      Inr (spec_command (\<lambda>n. zero_command) [''exit''] zero_command)"
    unfolding e by (simp add: parse_command_spec)
  have h: "show_prompt (user quiet_os) (hostname quiet_os) (cwd (env start_world)) \<noteq> None"
    "typable ''exit''" "length (replicate 4096 (CHR ''x'')) = BUFSZ"
    by (simp_all add: typable_exit show_prompt_def quiet_os_def start_world_def BUFSZ_def)
  from main_exits [of quiet_os start_world "''exit''" "\<lambda>i. replicate 4096 (CHR ''x'')" 0
      "\<lambda>i n. zero_command", OF h p typable_exit(2), of 0 "''ls''"]
  obtain e' where m: "main_loop (Suc 0) quiet_os (\<lambda>i n. zero_command)
      (\<lambda>i. replicate 4096 (CHR ''x'')) 0 (''exit'' @ newline # ''ls'') start_world =
      Some (Inr (start_world\<lparr>ed := e'\<rparr>, [Exit_typed]))"
    and o: "oldbuf e' = c_str (edit_keys ''exit'' [])" and "raw_mode e' = raw_mode (ed start_world)"
    by blast
  from o have "oldbuf e' = ''exit''"
    unfolding e by simp
  with m \<open>raw_mode e' = raw_mode (ed start_world)\<close> show ?thesis
    by (intro exI [of _ e']) (simp add: start_world_def)
qed

section \<open>What every run keeps\<close>

text \<open>
  C20. Whatever is typed and whatever the system answers, a run of the shell that returns
  leaves the history slot of the editor a string that fits the buffer, has moved the
  position in the sequence of \<open>rand\<close> only forwards, has only added to the programs left
  running in the background, at most one for each command that was processed, and has
  processed at most one command for each unit of fuel.
\<close>

theorem main_keeps_world:
  assumes "\<forall>i. length (stack i) = BUFSZ" and "world_ok w"
    and "main_loop fuel os junk stack i stdin w = Some (Inr (w', reps))"
  shows "world_ok w' \<and> rand_calls w \<le> rand_calls w' \<and> prefix (jobs w) (jobs w') \<and>
    length (jobs w') \<le> length (jobs w) + length reps \<and> length reps \<le> fuel"
  using main_loop_keeps [OF assms] by (simp add: later_def)

theorem main_keeps_world_witness:
  "\<exists>w'. main_loop 1 quiet_os (\<lambda>i n. zero_command) (\<lambda>i. replicate 4096 (CHR ''x'')) 0
     (''exit'' @ [newline] @ ''ls'') start_world = Some (Inr (w', [Exit_typed])) \<and>
     world_ok w' \<and> rand_calls w' = 0 \<and> jobs w' = []"
proof -
  have e: "edit_keys ''exit'' [] = ''exit''"
    by (simp add: edit_keys_def edit_key_def is_ignored_def)
  have "line_tokens ''exit'' = [''exit'']"
    by code_simp
  hence p: "parse_command (\<lambda>n. zero_command) (edit_keys ''exit'' []) zero_command =
      Inr (spec_command (\<lambda>n. zero_command) [''exit''] zero_command)"
    unfolding e by (simp add: parse_command_spec)
  have h: "show_prompt (user quiet_os) (hostname quiet_os) (cwd (env start_world)) \<noteq> None"
    "typable ''exit''" "length (replicate 4096 (CHR ''x'')) = BUFSZ"
    by (simp_all add: typable_exit show_prompt_def quiet_os_def start_world_def BUFSZ_def)
  from main_loop_exit [of quiet_os start_world "''exit''" "\<lambda>i. replicate 4096 (CHR ''x'')" 0
      "\<lambda>i n. zero_command", OF h p typable_exit(2), of 0 "''ls''"]
  obtain e' where m: "main_loop (Suc 0) quiet_os (\<lambda>i n. zero_command)
      (\<lambda>i. replicate 4096 (CHR ''x'')) 0 (''exit'' @ newline # ''ls'') start_world =
      Some (Inr (start_world\<lparr>ed := e'\<rparr>, [Exit_typed]))"
    by blast
  have s: "\<forall>i :: nat. length (replicate 4096 (CHR ''x'')) = BUFSZ" "world_ok start_world"
    by (simp_all add: BUFSZ_def world_ok_def start_world_def)
  from main_keeps_world [of "\<lambda>i. replicate 4096 (CHR ''x'')", OF s m] m show ?thesis
    by (intro exI [of _ "start_world\<lparr>ed := e'\<rparr>"]) (simp add: start_world_def)
qed

section \<open>The loop on fuel and the runs of the shell\<close>



text \<open>
  Once the input has ended no run finishes, unless the prompt cannot be built: the only
  pass that leaves the loop is the one that fails in \<open>show_prompt\<close>.
\<close>

lemma no_finish_after_input:
  assumes "finishes os w [] r"
  shows "r = Inl In_prompt_text"
  using assms
proof cases
  case (finish reps w1 stdin1 r1)
  from run_eof [OF finish(2)] have "stdin1 = []"
    by simp
  with finish(3) shell_end_eof [of os w1 r1] have "r1 = Inl In_prompt_text"
    by simp
  with finish(1) show ?thesis
    by simp
qed

section \<open>Pipelines\<close>

lemma spawn_Inr: "\<exists>x. spawn os command stdin w = Inr x"
  by (simp add: spawn_def)

lemma process_not_builtin:
  assumes "name command \<notin> set (''cd'' # builtin_names)"
  shows "\<exists>x. process_command os command stdin w = Inr x"
proof (cases "name command = [] \<or> name command = ''exit''")
  case True
  thus ?thesis
    by (auto simp: process_exit process_empty)
next
  case False
  with assms have "name command \<notin> set ([[], ''exit'', ''cd''] @ builtin_names)"
    by simp
  from process_spawn [OF this] spawn_Inr show ?thesis
    by simp
qed

text \<open>
  C23. A line with a pipe stops the shell with a memory error: only the first stage is
  passed to \<open>process_command\<close>, and when that returns, \<open>free_command\<close> walks the
  chain of stages whose last \<open>next\<close> field was never written. With structs from
  \<open>malloc\<close> whose \<open>next\<close> field is indeterminate, every typed line that holds a pipe
  token after its first token, and whose first token is not \<open>exit\<close>, ends the main loop
  in that iteration with an error; for a first stage that is no builtin the error is the
  one of \<open>free_command\<close>.
\<close>

theorem pipeline_stops_shell:
  assumes "show_prompt (user os) (hostname os) (cwd (env w)) \<noteq> None"
    and "typable keys" and "length (stack i) = BUFSZ"
    and "parse_command (junk i) (edit_keys keys []) zero_command = Inr c"
    and "\<forall>n. next_command (junk i n) = Wild"
    and "''|'' \<in> set (tl (line_tokens (c_str (edit_keys keys []))))"
    and "line_name keys \<noteq> ''exit''"
  shows "\<exists>e. main_loop (Suc fuel) os junk stack i (keys @ newline # rest) w = Some (Inl e) \<and>
    (line_name keys \<notin> set (''cd'' # builtin_names) \<longrightarrow> (\<exists>m. e = In_free m))"
proof -
  from assms(1) obtain ps where ps: "show_prompt (user os) (hostname os) (cwd (env w)) = Some ps"
    by blast
  from assms(2) have k: "\<forall>k \<in> set keys. simple_key k" "length keys < BUFSZ - 1"
    by (simp_all add: typable_def list_all_iff)
  from prompt_line_cases [OF k assms(3), of "ed w" "junk i" ps rest zero_command] assms(4)
  obtain e' where p: "prompt (junk i) (stack i) ps (keys @ newline # rest) (ed w) zero_command =
      Inr \<lparr>code = SUCCESS, parsed = Some c, final = e', unread = rest\<rparr>"
    by auto
  note n = parsed_name [OF assms(4)]
  from assms(5,6)
  have "\<not> chain_terminated (spec_command (junk i) (line_tokens (c_str (edit_keys keys []))) zero_command)"
    by (simp add: spec_chain_terminated)
  hence "\<exists>m. free_command c = Inl m"
    unfolding parse_command_InrD(1) [OF assms(4)] by (rule free_command_unterminated)
  then obtain m where m: "free_command c = Inl m"
    by blast
  show ?thesis
  proof (cases "process_command os (command_t.fields c) rest (w\<lparr>ed := e'\<rparr>)")
    case (Inl e)
    with process_not_builtin [of "command_t.fields c" os rest "w\<lparr>ed := e'\<rparr>"] n
    have "line_name keys \<in> set (''cd'' # builtin_names)"
      by auto
    with Inl ps p show ?thesis
      by (simp add: main_loop.simps(2) iteration_def)
  next
    case pr: (Inr x)
    obtain rc rep w' stdin' where x: "x = (rc, rep, w', stdin')"
      by (cases x)
    from process_frame [OF pr [unfolded x]] n assms(7) have "rc \<noteq> EXIT"
      by simp
    with pr x ps p m show ?thesis
      by (simp add: main_loop.simps(2) iteration_def)
  qed
qed

theorem pipeline_stops_shell_witness:
  "\<exists>m. main_loop 1 quiet_os (\<lambda>i n. Command zero_fields Wild) (\<lambda>i. replicate 4096 (CHR ''x'')) 0
     (''ls | wc'' @ [newline] @ ''exit'') start_world = Some (Inl (In_free m))"
proof -
  have e: "edit_keys ''ls | wc'' [] = ''ls | wc''"
    by (simp add: edit_keys_def edit_key_def is_ignored_def)
  define c where "c = Command (finish_args (zero_fields\<lparr>name := ''ls''\<rparr>))
    (Ptr (Command (finish_args (zero_fields\<lparr>name := ''wc''\<rparr>)) Wild))"
  have p: "parse_command (\<lambda>n. Command zero_fields Wild) (edit_keys ''ls | wc'' []) zero_command = Inr c"
    unfolding e c_def by code_simp
  have t: "line_tokens (c_str ''ls | wc'') = [''ls'', ''|'', ''wc'']"
    by code_simp
  have h: "show_prompt (user quiet_os) (hostname quiet_os) (cwd (env start_world)) \<noteq> None"
    "typable ''ls | wc''" "length (replicate 4096 (CHR ''x'')) = BUFSZ"
    by (simp_all add: typable_def simple_key_def plain_key_def is_ignored_def show_prompt_def
        quiet_os_def start_world_def BUFSZ_def)
  have g: "\<forall>n :: nat. next_command (Command zero_fields Wild) = Wild"
    "''|'' \<in> set (tl (line_tokens (c_str (edit_keys ''ls | wc'' []))))"
    "line_name ''ls | wc'' \<noteq> ''exit''"
    "line_name ''ls | wc'' \<notin> set (''cd'' # builtin_names)"
    unfolding line_name_def e t by (simp_all add: builtin_names_def)
  from pipeline_stops_shell [of quiet_os start_world "''ls | wc''" "\<lambda>i. replicate 4096 (CHR ''x'')" 0
      "\<lambda>i n. Command zero_fields Wild" c, OF h p g(1-3), of 0 "''exit''"] g(4)
  obtain m where r: "main_loop (Suc 0) quiet_os (\<lambda>i n. Command zero_fields Wild)
      (\<lambda>i. replicate 4096 (CHR ''x'')) 0 (''ls | wc'' @ newline # ''exit'') start_world =
      Some (Inl (In_free m))"
    by auto
  thus ?thesis
    by auto
qed

section \<open>The end of the input\<close>

text \<open>
  C18. At the end of the input the shell never ends: \<open>getchar\<close> keeps returning \<open>EOF\<close>,
  every call of \<open>prompt\<close> returns a command of 4095 bytes of 255, \<open>process_command\<close>
  starts a child for it and returns \<open>SUCCESS\<close>, and the loop goes round; no amount of
  fuel lets \<open>main_loop\<close> return.
\<close>

theorem main_end_of_input:
  assumes "\<forall>i. length (stack i) = BUFSZ" and "user os \<noteq> None"
    and "length (hostname os) < 1024" and "length (cwd (env w)) < 1024"
  shows "main_loop fuel os junk stack i [] w = None"
  using assms(4)
proof (induction fuel arbitrary: i w)
  case (Suc fuel)
  from assms(1) have "length (stack i) = BUFSZ"
    by simp
  from iteration_eof [OF this assms(2,3) Suc.prems, of "junk i"]
  obtain rep w' where it: "iteration os (junk i) (stack i) [] w = Again rep w' []"
    and "env w' = env w"
    by blast
  with Suc.prems have "length (cwd (env w')) < 1024"
    by simp
  from Suc.IH [OF this] it show ?case
    by (simp add: main_loop.simps(2))
qed simp

theorem main_end_of_input_witness:
  "main_loop 1000 quiet_os (\<lambda>i n. zero_command) (\<lambda>i. replicate 4096 (CHR ''x'')) 0 []
     start_world = None"
proof -
  have h: "\<forall>i :: nat. length (replicate 4096 (CHR ''x'')) = BUFSZ" "user quiet_os \<noteq> None"
    "length (hostname quiet_os) < 1024" "length (cwd (env start_world)) < 1024"
    by (simp_all add: quiet_os_def start_world_def BUFSZ_def)
  from main_end_of_input [of "\<lambda>i. replicate 4096 (CHR ''x'')" quiet_os start_world, OF h]
  show ?thesis .
qed

end
